theory Spec2Isabelle
  imports Complex_Main
begin

section \<open>Python values shared by the three tools\<close>

text \<open>
  The three scripts (\<^verbatim>\<open>computeStatistics.py\<close>, \<^verbatim>\<open>convertNumbers.py\<close>,
  \<^verbatim>\<open>wordCount.py\<close>) are modelled function by function. Python's unbounded \<^verbatim>\<open>int\<close> is
  \<^typ>\<open>int\<close>; a \<^verbatim>\<open>str\<close> is a \<^typ>\<open>string\<close>, so the model covers text whose code points
  are below 256. An exception is a value of the type \<open>error\<close>.
\<close>

datatype error = IndexError | KeyError | TypeError

text \<open>\<^verbatim>\<open>xs[i]\<close>: a negative index counts from the end, an index out of range raises.\<close>

definition py_index :: "'a list \<Rightarrow> int \<Rightarrow> error + 'a" where
  "py_index xs i =
     (if 0 \<le> i \<and> i < int (length xs) then Inr (xs ! nat i)
      else if i < 0 \<and> - int (length xs) \<le> i then Inr (xs ! nat (int (length xs) + i))
      else Inl IndexError)"

text \<open>\<^verbatim>\<open>str.isspace\<close> and the set \<^verbatim>\<open>str.strip()\<close> removes, on code points below 256.\<close>

definition isspace :: "char \<Rightarrow> bool" where
  "isspace c = (of_char c \<in> {9, 10, 11, 12, 13, 28, 29, 30, 31, 32, 133, 160 :: nat})"

text \<open>\<^verbatim>\<open>s.lstrip(chars)\<close>, \<^verbatim>\<open>s.rstrip(chars)\<close> and \<^verbatim>\<open>s.strip()\<close>.\<close>

definition lstrip_chars :: "(char \<Rightarrow> bool) \<Rightarrow> string \<Rightarrow> string" where
  "lstrip_chars p s = dropWhile p s"

definition rstrip_chars :: "(char \<Rightarrow> bool) \<Rightarrow> string \<Rightarrow> string" where
  "rstrip_chars p s = rev (dropWhile p (rev s))"

definition strip :: "string \<Rightarrow> string" where
  "strip s = rstrip_chars isspace (lstrip_chars isspace s)"

text \<open>\<^verbatim>\<open>str(n)\<close> of an integer: decimal digits, a minus sign when negative.\<close>

definition digit_char :: "nat \<Rightarrow> char" where
  "digit_char d = ''0123456789'' ! d"

fun str_nat :: "nat \<Rightarrow> string" where
  "str_nat n = (if n < 10 then [digit_char n] else str_nat (n div 10) @ [digit_char (n mod 10)])"

definition str_int :: "int \<Rightarrow> string" where
  "str_int i = (if i < 0 then CHR ''-'' # str_nat (nat (- i)) else str_nat (nat i))"

text \<open>\<^verbatim>\<open>"\n".join(lines)\<close>, and what \<^verbatim>\<open>print(s)\<close> sends to the console.\<close>

fun join_lines :: "string list \<Rightarrow> string" where
  "join_lines [] = []"
| "join_lines [l] = l"
| "join_lines (l # ls) = l @ [CHR 0x0A] @ join_lines ls"

definition print_line :: "string \<Rightarrow> string" where
  "print_line s = s @ [CHR 0x0A]"

text \<open>
  A \<^verbatim>\<open>dict\<close> keeps its keys in insertion order; assigning to a key that is present keeps
  its place. \<open>dict_getitem\<close> is \<^verbatim>\<open>d[k]\<close>, \<open>dict_get\<close> is \<^verbatim>\<open>d.get(k, default)\<close>,
  \<open>dict_contains\<close> is \<^verbatim>\<open>k in d\<close>.
\<close>

type_synonym ('k, 'v) dict = "('k \<times> 'v) list"

fun dict_set :: "('k, 'v) dict \<Rightarrow> 'k \<Rightarrow> 'v \<Rightarrow> ('k, 'v) dict" where
  "dict_set [] k v = [(k, v)]"
| "dict_set ((k', v') # d) k v = (if k' = k then (k', v) # d else (k', v') # dict_set d k v)"

definition dict_contains :: "('k, 'v) dict \<Rightarrow> 'k \<Rightarrow> bool" where
  "dict_contains d k = (map_of d k \<noteq> None)"

definition dict_get :: "('k, 'v) dict \<Rightarrow> 'k \<Rightarrow> 'v \<Rightarrow> 'v" where
  "dict_get d k dflt = (case map_of d k of None \<Rightarrow> dflt | Some v \<Rightarrow> v)"

definition dict_getitem :: "('k, 'v) dict \<Rightarrow> 'k \<Rightarrow> error + 'v" where
  "dict_getitem d k = (case map_of d k of None \<Rightarrow> Inl KeyError | Some v \<Rightarrow> Inr v)"

text \<open>
  \<^verbatim>\<open>f"{x:.10f}"\<close> for a finite float: the exact value of \<open>x\<close> rounded to ten decimals,
  ties to even, printed with a sign when \<open>x\<close> is negative, the integer part, a point and
  exactly ten fraction digits. Values are reals here; infinities, NaN and the sign of a
  negative zero are outside the model.
\<close>

definition round_half_even :: "real \<Rightarrow> int" where
  "round_half_even r =
     (let f = \<lfloor>r\<rfloor>; d = r - of_int f
      in if d < 1 / 2 then f else if d > 1 / 2 then f + 1 else if even f then f else f + 1)"

definition format_f10 :: "real \<Rightarrow> string" where
  "format_f10 x =
     (let q = round_half_even (\<bar>x\<bar> * 10 ^ 10);
          ip = str_nat (nat (q div 10 ^ 10));
          fp = str_nat (nat (q mod 10 ^ 10))
      in (if x < 0 then [CHR ''-''] else []) @ ip @ [CHR ''.'']
           @ replicate (10 - length fp) (CHR ''0'') @ fp)"

text \<open>
  The input file as \<^verbatim>\<open>open\<close> and the iteration over it see it: missing, unreadable (with
  the text of the exception), or the list of its raw lines, each with its line terminator.
\<close>

datatype input_file = FileNotFound | ReadError string | Lines "string list"

text \<open>
  One run of a script: what it printed, what it wrote to its results file (\<open>None\<close> when it
  wrote nothing) and the value \<^verbatim>\<open>main\<close> returned, which is the exit status.
\<close>

record run =
  console :: string
  results_file :: "string option"
  exit_code :: int

section \<open>convertNumbers.py\<close>

definition BIN_NEG_BITS :: nat where
  "BIN_NEG_BITS = 10"

definition HEX_NEG_DIGITS :: nat where
  "HEX_NEG_DIGITS = 10"

text \<open>The digit scan and the base-10 accumulation of \<^verbatim>\<open>_parse_int\<close>.\<close>

definition is_ascii_digit :: "char \<Rightarrow> bool" where
  "is_ascii_digit ch = (\<not> (of_char ch < (of_char (CHR ''0'') :: nat) \<or> of_char ch > (of_char (CHR ''9'') :: nat)))"

definition parse_digits :: "string \<Rightarrow> int" where
  "parse_digits text = foldl (\<lambda>value ch. value * 10 + (int (of_char ch) - int (of_char (CHR ''0'')))) 0 text"

text \<open>\<^verbatim>\<open>_parse_int\<close>: \<open>None\<close> is the pair \<^verbatim>\<open>(False, None)\<close>, \<open>Some v\<close> is \<^verbatim>\<open>(True, v)\<close>.\<close>

definition parse_int :: "string \<Rightarrow> int option" where
  "parse_int line =
     (let text = strip line in
      if text = [] then None
      else
        let sign = (if hd text = CHR ''-'' then -1 else 1 :: int);
            text' = (if hd text = CHR ''+'' \<or> hd text = CHR ''-'' then tl text else text)
        in if text' = [] then None
           else if \<not> list_all is_ascii_digit text' then None
           else Some (sign * parse_digits text'))"

text \<open>The \<^verbatim>\<open>while x > 0\<close> loop of \<^verbatim>\<open>_to_binary_nonneg\<close>; \<open>bits\<close> grows by appending.\<close>

function binary_loop :: "int \<Rightarrow> string \<Rightarrow> string" where
  "binary_loop x bits =
     (if x > 0 then binary_loop (x div 2) (bits @ [if x mod 2 = 1 then CHR ''1'' else CHR ''0''])
      else bits)"
  by pat_completeness auto
termination
  by (relation "measure (\<lambda>(x, bits). nat x)") auto

definition to_binary_nonneg :: "int \<Rightarrow> string" where
  "to_binary_nonneg n = (if n = 0 then ''0'' else rev (binary_loop n []))"

definition hex_digits :: string where
  "hex_digits = ''0123456789ABCDEF''"

function hex_loop :: "int \<Rightarrow> string \<Rightarrow> string" where
  "hex_loop x out =
     (if x > 0 then hex_loop (x div 16) (out @ [hex_digits ! nat (x mod 16)])
      else out)"
  by pat_completeness auto
termination
  by (relation "measure (\<lambda>(x, out). nat x)") auto

definition to_hex_nonneg :: "int \<Rightarrow> string" where
  "to_hex_nonneg n = (if n = 0 then ''0'' else rev (hex_loop n []))"

definition to_twos_complement_binary_10bit :: "int \<Rightarrow> string" where
  "to_twos_complement_binary_10bit n =
     (let base = (2::int) ^ BIN_NEG_BITS;
          val = base + n;
          b = to_binary_nonneg val
      in if length b < BIN_NEG_BITS then replicate (BIN_NEG_BITS - length b) (CHR ''0'') @ b else b)"

definition to_sign_extended_hex_10digits_from_bin :: "string \<Rightarrow> string" where
  "to_sign_extended_hex_10digits_from_bin bin_10 =
     (let val = foldl (\<lambda>val ch. val * 2 + (if ch = CHR ''1'' then 1 else 0)) (0::int) bin_10;
          low_hex = to_hex_nonneg val;
          low_hex = (if length low_hex < 2 then replicate (2 - length low_hex) (CHR ''0'') @ low_hex
                     else low_hex)
      in if length low_hex < HEX_NEG_DIGITS
         then replicate (HEX_NEG_DIGITS - length low_hex) (CHR ''F'') @ low_hex
         else low_hex)"

definition convert_number :: "int \<Rightarrow> string \<times> string" where
  "convert_number n =
     (if n \<ge> 0 then (to_binary_nonneg n, to_hex_nonneg n)
      else let bin_10 = to_twos_complement_binary_10bit n;
               hex_10 = to_sign_extended_hex_10digits_from_bin bin_10
           in (bin_10, hex_10))"

definition build_report_conv :: "(int \<times> string \<times> string) list \<Rightarrow> real \<Rightarrow> string" where
  "build_report_conv rows elapsed =
     (let lines = [''ITEM'' @ [CHR 0x09] @ ''VALUE'' @ [CHR 0x09] @ ''BIN'' @ [CHR 0x09] @ ''HEX''];
          lines = lines @ map (\<lambda>(idx, (val, bin_s, hex_s)).
                    str_nat idx @ [CHR 0x09] @ str_int val @ [CHR 0x09] @ bin_s @ [CHR 0x09] @ hex_s)
                    (enumerate 1 rows);
          time_line = rstrip_chars (\<lambda>c. c = CHR ''.'')
                        (rstrip_chars (\<lambda>c. c = CHR ''0'') (''TIME (seconds): '' @ format_f10 elapsed));
          lines = lines @ [time_line]
      in join_lines lines @ [CHR 0x0A])"

text \<open>
  The body of the loop of \<^verbatim>\<open>_read_rows\<close> for one raw line, \<open>line_num\<close> already
  incremented: the rows collected and the text printed so far are passed along.
\<close>

definition invalid_data_conv :: "nat \<Rightarrow> string \<Rightarrow> string" where
  "invalid_data_conv line_num bad =
     ''Invalid data at line '' @ str_nat line_num @ '': '' @ [CHR 0x27] @ bad @ [CHR 0x27]
       @ '' (ignored)''"

definition read_rows_line ::
  "nat \<Rightarrow> string \<Rightarrow> (int \<times> string \<times> string) list \<times> string
     \<Rightarrow> (int \<times> string \<times> string) list \<times> string" where
  "read_rows_line line_num raw st =
     (case st of (rows, out) \<Rightarrow>
        (case parse_int raw of
           None \<Rightarrow>
             (let bad = strip raw in
              if bad \<noteq> [] then (rows, out @ print_line (invalid_data_conv line_num bad))
              else (rows, out))
         | Some val \<Rightarrow>
             (case convert_number val of (bin_s, hex_s) \<Rightarrow> (rows @ [(val, bin_s, hex_s)], out))))"

fun read_rows_loop ::
  "nat \<Rightarrow> string list \<Rightarrow> (int \<times> string \<times> string) list \<times> string
     \<Rightarrow> (int \<times> string \<times> string) list \<times> string" where
  "read_rows_loop line_num [] st = st"
| "read_rows_loop line_num (raw # rest) st =
     read_rows_loop (line_num + 1) rest (read_rows_line (line_num + 1) raw st)"

text \<open>\<^verbatim>\<open>_read_rows\<close>: the rows or \<open>None\<close>, the error message or \<open>None\<close>, and what it printed.\<close>

definition read_rows ::
  "string \<Rightarrow> input_file \<Rightarrow> (int \<times> string \<times> string) list option \<times> string option \<times> string" where
  "read_rows file_path f =
     (case f of
        FileNotFound \<Rightarrow> (None, Some (''Error: file not found -> '' @ file_path), [])
      | ReadError exc \<Rightarrow>
          (None, Some (''Error: cannot read file -> '' @ file_path @ ''. Details: '' @ exc), [])
      | Lines ls \<Rightarrow> (case read_rows_loop 0 ls ([], []) of (rows, out) \<Rightarrow> (Some rows, None, out)))"

definition RESULTS_FILE_conv :: string where
  "RESULTS_FILE_conv = ''ConversionResults.txt''"

text \<open>
  \<^verbatim>\<open>main\<close> of convertNumbers.py. \<open>fs\<close> is the file system, \<open>elapsed\<close> the difference of the
  two clock readings, \<open>write_error\<close> the text of the \<^verbatim>\<open>OSError\<close> when the results file cannot
  be written.
\<close>

definition main_conv :: "string list \<Rightarrow> (string \<Rightarrow> input_file) \<Rightarrow> real \<Rightarrow> string option \<Rightarrow> run" where
  "main_conv argv fs elapsed write_error =
     (if length argv \<noteq> 2
      then \<lparr>console = print_line ''Usage: python convertNumbers.py fileWithData.txt'',
            results_file = None, exit_code = 1\<rparr>
      else
        let file_path = argv ! 1;
            (rows, error, out) = read_rows file_path (fs file_path)
        in case error of
             Some msg \<Rightarrow> \<lparr>console = out @ print_line msg, results_file = None, exit_code = 1\<rparr>
           | None \<Rightarrow>
               (let report = build_report_conv (case rows of Some r \<Rightarrow> r | None \<Rightarrow> []) elapsed;
                    out = out @ report
                in case write_error of
                     None \<Rightarrow> \<lparr>console = out, results_file = Some report, exit_code = 0\<rparr>
                   | Some exc \<Rightarrow>
                       \<lparr>console = out @ print_line (''Warning: could not write '' @ [CHR 0x27]
                                    @ RESULTS_FILE_conv @ [CHR 0x27] @ ''. Details: '' @ exc),
                        results_file = None, exit_code = 0\<rparr>))"

section \<open>computeStatistics.py\<close>

text \<open>
  A float is modelled by the real number it stands for, so the arithmetic below is exact
  and rounding, overflow, infinities and NaN are not represented. \<^verbatim>\<open>float(text)\<close> is the
  parameter \<open>pf\<close>: \<open>None\<close> where Python raises \<^verbatim>\<open>ValueError\<close>.
\<close>

definition replace_comma :: "string \<Rightarrow> string" where
  "replace_comma text = map (\<lambda>c. if c = CHR '','' then CHR ''.'' else c) text"

text \<open>\<^verbatim>\<open>_try_parse_number\<close>: \<open>None\<close> is \<^verbatim>\<open>(False, None)\<close>, \<open>Some v\<close> is \<^verbatim>\<open>(True, v)\<close>.\<close>

definition try_parse_number :: "(string \<Rightarrow> real option) \<Rightarrow> string \<Rightarrow> real option" where
  "try_parse_number pf raw =
     (let text = strip raw in
      if text = [] then None
      else let text = replace_comma text in pf text)"

definition mean_of :: "real list \<Rightarrow> real" where
  "mean_of values =
     (case foldl (\<lambda>(tot, cnt) v. (tot + v, cnt + 1)) (0, 0 :: nat) values of
        (tot, cnt) \<Rightarrow> if cnt > 0 then tot / real cnt else 0)"

definition median_of :: "real list \<Rightarrow> error + real" where
  "median_of sorted_values =
     (let n = int (length sorted_values) in
      if n = 0 then Inr 0
      else
        let mid = n div 2 in
        if n mod 2 = 1 then py_index sorted_values mid
        else (case py_index sorted_values (mid - 1) of
                Inl e \<Rightarrow> Inl e
              | Inr a \<Rightarrow> (case py_index sorted_values mid of
                            Inl e \<Rightarrow> Inl e
                          | Inr b \<Rightarrow> Inr ((a + b) / 2))))"

text \<open>The first loop of \<^verbatim>\<open>_mode\<close>: one step for the pair \<^verbatim>\<open>idx, v\<close>.\<close>

definition mode_count_step ::
  "('a, nat) dict \<times> ('a, nat) dict \<Rightarrow> nat \<times> 'a \<Rightarrow> ('a, nat) dict \<times> ('a, nat) dict" where
  "mode_count_step st iv =
     (case st of (freq, first_pos) \<Rightarrow>
        (case iv of (idx, v) \<Rightarrow>
           (dict_set freq v (dict_get freq v 0 + 1),
            if \<not> dict_contains first_pos v then dict_set first_pos v idx else first_pos)))"

text \<open>
  The last loop of \<^verbatim>\<open>_mode\<close> over \<^verbatim>\<open>freq.items()\<close>, with \<^verbatim>\<open>best_val\<close> and
  \<^verbatim>\<open>best_first\<close> as options (\<open>None\<close> is Python's \<^verbatim>\<open>None\<close>).
\<close>

fun mode_select ::
  "nat \<Rightarrow> ('a, nat) dict \<Rightarrow> ('a \<times> nat) list \<Rightarrow> 'a option \<Rightarrow> nat option
     \<Rightarrow> error + ('a option \<times> nat option)" where
  "mode_select max_count first_pos [] best_val best_first = Inr (best_val, best_first)"
| "mode_select max_count first_pos ((v, c) # items) best_val best_first =
     (if c = max_count then
        (case dict_getitem first_pos v of
           Inl e \<Rightarrow> Inl e
         | Inr pos \<Rightarrow>
             if (case best_first of None \<Rightarrow> True | Some b \<Rightarrow> pos < b)
             then mode_select max_count first_pos items (Some v) (Some pos)
             else mode_select max_count first_pos items best_val best_first)
      else mode_select max_count first_pos items best_val best_first)"

definition mode_of :: "'a list \<Rightarrow> error + (bool \<times> 'a option)" where
  "mode_of values =
     (case foldl mode_count_step ([], []) (enumerate 0 values) of
        (freq, first_pos) \<Rightarrow>
          (let max_count = foldl (\<lambda>max_count c. max max_count c) 0 (map snd freq) in
           if max_count \<le> 1 then Inr (False, None)
           else (case mode_select max_count first_pos freq None None of
                   Inl e \<Rightarrow> Inl e
                 | Inr (best_val, best_first) \<Rightarrow> Inr (True, best_val))))"

definition population_variance :: "real list \<Rightarrow> real \<Rightarrow> real" where
  "population_variance values mean_val =
     (let n = length values in
      if n = 0 then 0
      else
        let acc = foldl (\<lambda>acc v. let diff = v - mean_val in acc + diff * diff) 0 values
        in acc / real n)"

text \<open>\<^verbatim>\<open>variance_val ** 0.5\<close>, on the non-negative values a variance takes.\<close>

definition population_std :: "real \<Rightarrow> real" where
  "population_std variance_val = sqrt variance_val"

definition format_number :: "real \<Rightarrow> string" where
  "format_number x =
     (let s = rstrip_chars (\<lambda>c. c = CHR ''.'') (rstrip_chars (\<lambda>c. c = CHR ''0'') (format_f10 x))
      in if s \<noteq> [] then s else ''0'')"

record StatisticsResult =
  count :: int
  mean :: real
  median :: real
  mode :: string
  sd :: real
  variance :: real
  elapsed :: real

definition build_report_stats :: "StatisticsResult \<Rightarrow> string" where
  "build_report_stats result =
     (let lines = [''COUNT: '' @ str_int (count result),
                   ''MEAN: '' @ format_number (mean result),
                   ''MEDIAN: '' @ format_number (median result),
                   ''MODE: '' @ mode result,
                   ''SD (Population): '' @ format_number (sd result),
                   ''VARIANCE (Population): '' @ format_number (variance result),
                   ''TIME (seconds): '' @ format_number (elapsed result)]
      in join_lines lines @ [CHR 0x0A])"

definition invalid_data_stats :: "nat \<Rightarrow> string \<Rightarrow> string" where
  "invalid_data_stats line_num bad =
     ''Invalid data at line '' @ str_nat line_num @ '': '' @ [CHR 0x27] @ bad @ [CHR 0x27]
       @ '' (ignored, continuing)''"

text \<open>The body of the loop of \<^verbatim>\<open>_read_values\<close> for one raw line.\<close>

definition read_values_line ::
  "(string \<Rightarrow> real option) \<Rightarrow> nat \<Rightarrow> string \<Rightarrow> real list \<times> string \<Rightarrow> real list \<times> string" where
  "read_values_line pf line_num raw_line st =
     (case st of (values, out) \<Rightarrow>
        (case try_parse_number pf raw_line of
           Some val \<Rightarrow> (values @ [val], out)
         | None \<Rightarrow>
             (let bad = strip raw_line in
              if bad \<noteq> [] then (values, out @ print_line (invalid_data_stats line_num bad))
              else (values, out))))"

fun read_values_loop ::
  "(string \<Rightarrow> real option) \<Rightarrow> nat \<Rightarrow> string list \<Rightarrow> real list \<times> string \<Rightarrow> real list \<times> string" where
  "read_values_loop pf line_num [] st = st"
| "read_values_loop pf line_num (raw_line # rest) st =
     read_values_loop pf (line_num + 1) rest (read_values_line pf (line_num + 1) raw_line st)"

text \<open>\<^verbatim>\<open>_read_values\<close>: the values, or \<open>None\<close> when the file cannot be read, and what it printed.\<close>

definition read_values ::
  "(string \<Rightarrow> real option) \<Rightarrow> string \<Rightarrow> input_file \<Rightarrow> real list option \<times> string" where
  "read_values pf file_path f =
     (case f of
        FileNotFound \<Rightarrow> (None, print_line (''Error: file not found -> '' @ file_path))
      | ReadError exc \<Rightarrow>
          (None, print_line (''Error: cannot read file -> '' @ file_path @ ''. Details: '' @ exc))
      | Lines ls \<Rightarrow> (case read_values_loop pf 0 ls ([], []) of (values, out) \<Rightarrow> (Some values, out)))"

text \<open>
  \<^verbatim>\<open>_compute_statistics\<close>; \<^verbatim>\<open>sorted\<close> is \<^const>\<open>sort\<close>. Formatting a mode that is
  \<^verbatim>\<open>None\<close> would raise \<^verbatim>\<open>TypeError\<close>.
\<close>

definition compute_statistics :: "real list \<Rightarrow> real \<Rightarrow> error + StatisticsResult" where
  "compute_statistics values elapsed_time =
     (let values_sorted = sort values;
          mean_val = mean_of values
      in case median_of values_sorted of
           Inl e \<Rightarrow> Inl e
         | Inr median_val \<Rightarrow>
             (case mode_of values of
                Inl e \<Rightarrow> Inl e
              | Inr (has_mode, mode_val) \<Rightarrow>
                  (case (if has_mode
                         then (case mode_val of None \<Rightarrow> Inl TypeError | Some m \<Rightarrow> Inr (format_number m))
                         else Inr ''#N/A'') of
                     Inl e \<Rightarrow> Inl e
                   | Inr mode_str \<Rightarrow>
                       (let var_val = population_variance values mean_val;
                            sd_val = population_std var_val
                        in Inr \<lparr>count = int (length values), mean = mean_val, median = median_val,
                                mode = mode_str, sd = sd_val, variance = var_val,
                                elapsed = elapsed_time\<rparr>))))"

definition RESULTS_FILE_stats :: string where
  "RESULTS_FILE_stats = ''StatisticsResults.txt''"

text \<open>
  \<^verbatim>\<open>main\<close> of computeStatistics.py, with the parameters of \<open>main_conv\<close>. An exception
  that nothing catches ends the run: the result is then \<open>Inl\<close>.
\<close>

definition main_stats ::
  "(string \<Rightarrow> real option) \<Rightarrow> string list \<Rightarrow> (string \<Rightarrow> input_file) \<Rightarrow> real \<Rightarrow> string option
     \<Rightarrow> error + run" where
  "main_stats pf argv fs elapsed_time write_error =
     (if length argv \<noteq> 2
      then Inr \<lparr>console = print_line ''Usage: python computeStatistics.py fileWithData.txt'',
                results_file = None, exit_code = 1\<rparr>
      else
        let file_path = argv ! 1 in
        case read_values pf file_path (fs file_path) of
          (None, out) \<Rightarrow> Inr \<lparr>console = out, results_file = None, exit_code = 1\<rparr>
        | (Some values, out) \<Rightarrow>
            if values = []
            then Inr \<lparr>console = out @ print_line ''Error: no valid numeric data found in the file.'',
                      results_file = None, exit_code = 1\<rparr>
            else
              (case compute_statistics values elapsed_time of
                 Inl e \<Rightarrow> Inl e
               | Inr result \<Rightarrow>
                   (let report = build_report_stats result;
                        out = out @ report
                    in case write_error of
                         None \<Rightarrow> Inr \<lparr>console = out, results_file = Some report, exit_code = 0\<rparr>
                       | Some exc \<Rightarrow>
                           Inr \<lparr>console = out @ print_line (''Warning: could not write '' @ [CHR 0x27]
                                          @ RESULTS_FILE_stats @ [CHR 0x27] @ ''. Details: '' @ exc),
                                results_file = None, exit_code = 0\<rparr>)))"

section \<open>wordCount.py\<close>

text \<open>The scan of \<^verbatim>\<open>_tokenize\<close>: one character, with \<^verbatim>\<open>words\<close> and \<^verbatim>\<open>current\<close>.\<close>

definition tokenize_step :: "string list \<times> string \<Rightarrow> char \<Rightarrow> string list \<times> string" where
  "tokenize_step st ch =
     (case st of (words, current) \<Rightarrow>
        if isspace ch then (if current \<noteq> [] then (words @ [current], []) else (words, current))
        else (words, current @ [ch]))"

definition tokenize :: "string \<Rightarrow> string list" where
  "tokenize text =
     (case foldl tokenize_step ([], []) text of
        (words, current) \<Rightarrow> if current \<noteq> [] then words @ [current] else words)"

definition count_words_step ::
  "(string, nat) dict \<times> string list \<Rightarrow> string \<Rightarrow> (string, nat) dict \<times> string list" where
  "count_words_step st w =
     (case st of (counts, order) \<Rightarrow>
        if dict_contains counts w then (dict_set counts w (dict_get counts w 0 + 1), order)
        else (dict_set counts w 1, order @ [w]))"

definition count_words :: "string list \<Rightarrow> (string, nat) dict \<times> string list" where
  "count_words words = foldl count_words_step ([], []) words"

text \<open>\<^verbatim>\<open>_build_report\<close>: the lookup \<^verbatim>\<open>counts[w]\<close> raises \<^verbatim>\<open>KeyError\<close> on a missing word.\<close>

fun report_rows_wc :: "(string, nat) dict \<Rightarrow> string list \<Rightarrow> error + string list" where
  "report_rows_wc counts [] = Inr []"
| "report_rows_wc counts (w # order) =
     (case dict_getitem counts w of
        Inl e \<Rightarrow> Inl e
      | Inr c \<Rightarrow> (case report_rows_wc counts order of
                    Inl e \<Rightarrow> Inl e
                  | Inr ls \<Rightarrow> Inr ((w @ [CHR 0x09] @ str_nat c) # ls)))"

definition build_report_wc :: "(string, nat) dict \<Rightarrow> string list \<Rightarrow> real \<Rightarrow> error + string" where
  "build_report_wc counts order elapsed_time =
     (case report_rows_wc counts order of
        Inl e \<Rightarrow> Inl e
      | Inr rows \<Rightarrow>
          (let lines = [''WORD'' @ [CHR 0x09] @ ''COUNT''] @ rows;
               lines = lines @ [rstrip_chars (\<lambda>c. c = CHR ''.'')
                                  (rstrip_chars (\<lambda>c. c = CHR ''0'')
                                     (''TIME (seconds): '' @ format_f10 elapsed_time))]
           in Inr (join_lines lines @ [CHR 0x0A])))"

text \<open>\<^verbatim>\<open>raw_line.strip("\n")\<close>.\<close>

definition strip_newlines :: "string \<Rightarrow> string" where
  "strip_newlines s = rstrip_chars (\<lambda>c. c = CHR 0x0A) (lstrip_chars (\<lambda>c. c = CHR 0x0A) s)"

text \<open>The body of the reading loop of \<^verbatim>\<open>main\<close> for one raw line.\<close>

definition read_words_line :: "nat \<Rightarrow> string \<Rightarrow> string list \<times> string \<Rightarrow> string list \<times> string" where
  "read_words_line line_num raw_line st =
     (case st of (all_words, out) \<Rightarrow>
        (let line = strip_newlines raw_line in
         if strip line = []
         then (all_words, out @ print_line (''Invalid data at line '' @ str_nat line_num
                                             @ '': empty line (ignored)''))
         else
           let words = tokenize line in
           if words = []
           then (all_words, out @ print_line (''Invalid data at line '' @ str_nat line_num
                                               @ '': no words (ignored)''))
           else (all_words @ words, out)))"

fun read_words_loop :: "nat \<Rightarrow> string list \<Rightarrow> string list \<times> string \<Rightarrow> string list \<times> string" where
  "read_words_loop line_num [] st = st"
| "read_words_loop line_num (raw_line # rest) st =
     read_words_loop (line_num + 1) rest (read_words_line (line_num + 1) raw_line st)"

definition RESULTS_FILE_wc :: string where
  "RESULTS_FILE_wc = ''WordCountResults.txt''"

definition main_wc ::
  "string list \<Rightarrow> (string \<Rightarrow> input_file) \<Rightarrow> real \<Rightarrow> string option \<Rightarrow> error + run" where
  "main_wc argv fs elapsed_time write_error =
     (if length argv \<noteq> 2
      then Inr \<lparr>console = print_line ''Usage: python wordCount.py fileWithData.txt'',
                results_file = None, exit_code = 1\<rparr>
      else
        let file_path = argv ! 1 in
        case fs file_path of
          FileNotFound \<Rightarrow>
            Inr \<lparr>console = print_line (''Error: file not found -> '' @ file_path),
                 results_file = None, exit_code = 1\<rparr>
        | ReadError exc \<Rightarrow>
            Inr \<lparr>console = print_line (''Error: cannot read file -> '' @ file_path
                                          @ ''. Details: '' @ exc),
                 results_file = None, exit_code = 1\<rparr>
        | Lines ls \<Rightarrow>
            (case read_words_loop 0 ls ([], []) of
               (all_words, out) \<Rightarrow>
                 (case count_words all_words of
                    (counts, order) \<Rightarrow>
                      (case build_report_wc counts order elapsed_time of
                         Inl e \<Rightarrow> Inl e
                       | Inr report \<Rightarrow>
                           (let out = out @ report in
                            case write_error of
                              None \<Rightarrow> Inr \<lparr>console = out, results_file = Some report, exit_code = 0\<rparr>
                            | Some exc \<Rightarrow>
                                Inr \<lparr>console = out @ print_line (''Warning: could not write ''
                                               @ [CHR 0x27] @ RESULTS_FILE_wc @ [CHR 0x27]
                                               @ ''. Details: '' @ exc),
                                     results_file = None, exit_code = 0\<rparr>)))))"

section \<open>Notions the statements are written in\<close>

text \<open>
  Reading a string as a numeral in a base, as \<^verbatim>\<open>int(s, base)\<close> does on the digits
  \<^verbatim>\<open>0-9A-F\<close>: \<open>None\<close> when the string is empty or holds a character that is not a digit
  of the base.
\<close>

definition digit_value :: "char \<Rightarrow> int option" where
  "digit_value c =
     (let k = int (of_char c) in
      if 48 \<le> k \<and> k \<le> 57 then Some (k - 48)
      else if 65 \<le> k \<and> k \<le> 70 then Some (k - 55)
      else None)"

fun numeral_acc :: "int \<Rightarrow> int \<Rightarrow> string \<Rightarrow> int option" where
  "numeral_acc base acc [] = Some acc"
| "numeral_acc base acc (c # cs) =
     (case digit_value c of
        None \<Rightarrow> None
      | Some d \<Rightarrow> if d < base then numeral_acc base (acc * base + d) cs else None)"

definition numeral_value :: "int \<Rightarrow> string \<Rightarrow> int option" where
  "numeral_value base s = (if s = [] then None else numeral_acc base 0 s)"

text \<open>
  The position of the first occurrence of a value in a list (the length of the list when
  it does not occur), the distinct values of a list in the order of their first
  occurrences, and the highest number of occurrences of a value of a non-empty list.
\<close>

definition first_index :: "'a list \<Rightarrow> 'a \<Rightarrow> nat" where
  "first_index xs x = length (takeWhile (\<lambda>y. y \<noteq> x) xs)"

definition first_seen :: "'a list \<Rightarrow> 'a list" where
  "first_seen xs = rev (remdups (rev xs))"

definition max_frequency :: "'a list \<Rightarrow> nat" where
  "max_frequency xs = Max (count_list xs ` set xs)"

text \<open>
  The formatting rule in the words of the specification: ten fraction digits, trailing
  zeros removed, then one trailing point removed, \<^verbatim>\<open>0\<close> for an empty result.
  \<open>fraction_digits\<close> are the characters after the first point of a string, \<open>is_digit\<close>
  holds of the ten decimal digits.
\<close>

definition strip_one_point :: "string \<Rightarrow> string" where
  "strip_one_point s = (if s \<noteq> [] \<and> last s = CHR ''.'' then butlast s else s)"

definition format_spec :: "real \<Rightarrow> string" where
  "format_spec x =
     (let s = strip_one_point (rstrip_chars (\<lambda>c. c = CHR ''0'') (format_f10 x))
      in if s = [] then ''0'' else s)"

definition fraction_digits :: "string \<Rightarrow> string" where
  "fraction_digits s = tl (dropWhile (\<lambda>c. c \<noteq> CHR ''.'') s)"

definition is_digit :: "char \<Rightarrow> bool" where
  "is_digit c = (c \<in> set ''0123456789'')"

text \<open>
  What a reading loop prints for a file: \<open>msg i raw\<close> is the diagnostic for the raw line
  \<open>raw\<close> with the number \<open>i\<close> (counted from 1), or \<open>None\<close> when the line gets none.
  The three functions after it say which lines the scripts reject and with which message:
  the statistics and the conversion scripts a line that does not parse and is not blank, the
  word-count script a blank line.
\<close>

definition diagnostics :: "(nat \<Rightarrow> string \<Rightarrow> string option) \<Rightarrow> string list \<Rightarrow> string" where
  "diagnostics msg ls =
     concat (map (\<lambda>(i, raw). case msg i raw of None \<Rightarrow> [] | Some m \<Rightarrow> print_line m) (enumerate 1 ls))"

definition rejected_stats :: "(string \<Rightarrow> real option) \<Rightarrow> nat \<Rightarrow> string \<Rightarrow> string option" where
  "rejected_stats pf i raw =
     (if try_parse_number pf raw = None \<and> strip raw \<noteq> []
      then Some (invalid_data_stats i (strip raw)) else None)"

definition rejected_conv :: "nat \<Rightarrow> string \<Rightarrow> string option" where
  "rejected_conv i raw =
     (if parse_int raw = None \<and> strip raw \<noteq> []
      then Some (invalid_data_conv i (strip raw)) else None)"

definition rejected_wc :: "nat \<Rightarrow> string \<Rightarrow> string option" where
  "rejected_wc i raw =
     (if strip (strip_newlines raw) = []
      then Some (''Invalid data at line '' @ str_nat i @ '': empty line (ignored)'') else None)"

text \<open>
  The row of the conversion report for an accepted integer, the time line of the conversion
  and word-count reports, and the effect of writing the results file: the warning printed
  and the content written.
\<close>

definition conversion_row :: "int \<Rightarrow> int \<times> string \<times> string" where
  "conversion_row v = (v, fst (convert_number v), snd (convert_number v))"

definition time_line :: "real \<Rightarrow> string" where
  "time_line el =
     rstrip_chars (\<lambda>c. c = CHR ''.'')
       (rstrip_chars (\<lambda>c. c = CHR ''0'') (''TIME (seconds): '' @ format_f10 el))"

definition write_warning :: "string \<Rightarrow> string option \<Rightarrow> string" where
  "write_warning name write_error =
     (case write_error of
        None \<Rightarrow> []
      | Some exc \<Rightarrow> print_line (''Warning: could not write '' @ [CHR 0x27] @ name @ [CHR 0x27]
                                  @ ''. Details: '' @ exc))"

definition written :: "string \<Rightarrow> string option \<Rightarrow> string option" where
  "written report write_error = (case write_error of None \<Rightarrow> Some report | Some exc \<Rightarrow> None)"

section \<open>Properties\<close>

declare str_nat.simps [simp del]
declare binary_loop.simps [simp del]
declare hex_loop.simps [simp del]

subsection \<open>Base conversion\<close>

lemma numeral_acc_snoc:
  "numeral_acc base acc (xs @ [c]) =
     (case numeral_acc base acc xs of
        None \<Rightarrow> None
      | Some a \<Rightarrow> (case digit_value c of
                    None \<Rightarrow> None
                  | Some d \<Rightarrow> if d < base then Some (a * base + d) else None))"
  by (induction xs arbitrary: acc) (auto split: option.splits)

lemma binary_loop_acc: "binary_loop x bits = bits @ binary_loop x []"
proof (induction "nat x" arbitrary: x bits rule: less_induct)
  case less
  show ?case
  proof (cases "x > 0")
    case True
    let ?d = "if x mod 2 = 1 then CHR ''1'' else CHR ''0''"
    have lt: "nat (x div 2) < nat x" using True by simp
    have "binary_loop x bits = binary_loop (x div 2) (bits @ [?d])"
      using True by (simp add: binary_loop.simps[of x])
    also have "\<dots> = (bits @ [?d]) @ binary_loop (x div 2) []"
      by (rule less[OF lt])
    also have "\<dots> = bits @ binary_loop (x div 2) [?d]"
      using less[OF lt, of "[?d]"] by simp
    also have "\<dots> = bits @ binary_loop x []"
      using True by (simp add: binary_loop.simps[of x "[]"])
    finally show ?thesis .
  next
    case False
    then show ?thesis by (simp add: binary_loop.simps[of x])
  qed
qed

lemma binary_loop_step:
  "x > 0 \<Longrightarrow> binary_loop x [] = (if x mod 2 = 1 then CHR ''1'' else CHR ''0'') # binary_loop (x div 2) []"
  using binary_loop_acc[of "x div 2" "[if x mod 2 = 1 then CHR ''1'' else CHR ''0'']"]
  by (simp add: binary_loop.simps[of x "[]"])

lemma binary_loop_value: "0 \<le> x \<Longrightarrow> numeral_acc 2 0 (rev (binary_loop x [])) = Some x"
proof (induction "nat x" arbitrary: x rule: less_induct)
  case less
  show ?case
  proof (cases "x > 0")
    case True
    have lt: "nat (x div 2) < nat x" using True by simp
    have ih: "numeral_acc 2 0 (rev (binary_loop (x div 2) [])) = Some (x div 2)"
      using less(1)[OF lt] True by simp
    have "(x mod 2 = 0 \<and> x div 2 * 2 = x) \<or> (x mod 2 = 1 \<and> x div 2 * 2 + 1 = x)"
      by presburger
    then show ?thesis
      using True ih
      by (auto simp: binary_loop_step numeral_acc_snoc digit_value_def)
  next
    case False
    with less(2) have "x = 0" by simp
    then show ?thesis by (simp add: binary_loop.simps[of 0])
  qed
qed

lemma hex_loop_acc: "hex_loop x out = out @ hex_loop x []"
proof (induction "nat x" arbitrary: x out rule: less_induct)
  case less
  show ?case
  proof (cases "x > 0")
    case True
    let ?d = "hex_digits ! nat (x mod 16)"
    have lt: "nat (x div 16) < nat x" using True by simp
    have "hex_loop x out = hex_loop (x div 16) (out @ [?d])"
      using True by (simp add: hex_loop.simps[of x])
    also have "\<dots> = (out @ [?d]) @ hex_loop (x div 16) []"
      by (rule less[OF lt])
    also have "\<dots> = out @ hex_loop (x div 16) [?d]"
      using less[OF lt, of "[?d]"] by simp
    also have "\<dots> = out @ hex_loop x []"
      using True by (simp add: hex_loop.simps[of x "[]"])
    finally show ?thesis .
  next
    case False
    then show ?thesis by (simp add: hex_loop.simps[of x])
  qed
qed

lemma hex_loop_step:
  "x > 0 \<Longrightarrow> hex_loop x [] = hex_digits ! nat (x mod 16) # hex_loop (x div 16) []"
  using hex_loop_acc[of "x div 16" "[hex_digits ! nat (x mod 16)]"]
  by (simp add: hex_loop.simps[of x "[]"])

lemma hex_digit_value: "k < 16 \<Longrightarrow> digit_value (hex_digits ! k) = Some (int k)"
proof -
  assume "k < 16"
  then have "k = 0 \<or> k = 1 \<or> k = 2 \<or> k = 3 \<or> k = 4 \<or> k = 5 \<or> k = 6 \<or> k = 7 \<or> k = 8
    \<or> k = 9 \<or> k = 10 \<or> k = 11 \<or> k = 12 \<or> k = 13 \<or> k = 14 \<or> k = 15"
    by presburger
  then show ?thesis
    by (elim disjE) (simp_all add: hex_digits_def digit_value_def)
qed

lemma hex_digit_mem: "k < 16 \<Longrightarrow> hex_digits ! k \<in> set hex_digits"
  by (rule nth_mem) (simp add: hex_digits_def)

lemma hex_loop_value: "0 \<le> x \<Longrightarrow> numeral_acc 16 0 (rev (hex_loop x [])) = Some x"
proof (induction "nat x" arbitrary: x rule: less_induct)
  case less
  show ?case
  proof (cases "x > 0")
    case True
    have lt: "nat (x div 16) < nat x" using True by simp
    have ih: "numeral_acc 16 0 (rev (hex_loop (x div 16) [])) = Some (x div 16)"
      using less(1)[OF lt] True by simp
    have k: "nat (x mod 16) < 16" by simp
    have m: "int (nat (x mod 16)) = x mod 16" by simp
    have lo: "x mod 16 < 16" by simp
    show ?thesis
      using True ih hex_digit_value[OF k] lo
      by (simp add: hex_loop_step numeral_acc_snoc m)
  next
    case False
    with less(2) have "x = 0" by simp
    then show ?thesis by (simp add: hex_loop.simps[of 0])
  qed
qed

lemma hex_loop_alphabet: "set (hex_loop x []) \<subseteq> set hex_digits"
proof (induction "nat x" arbitrary: x rule: less_induct)
  case less
  show ?case
  proof (cases "x > 0")
    case True
    have lt: "nat (x div 16) < nat x" using True by simp
    have k: "nat (x mod 16) < 16" by simp
    show ?thesis
      using True less(1)[OF lt] hex_digit_mem[OF k]
      by (simp add: hex_loop_step)
  next
    case False
    then show ?thesis by (simp add: hex_loop.simps[of x])
  qed
qed

lemma binary_loop_nonempty: "x > 0 \<Longrightarrow> binary_loop x [] \<noteq> []"
  by (simp add: binary_loop_step)

lemma hex_loop_nonempty: "x > 0 \<Longrightarrow> hex_loop x [] \<noteq> []"
  by (simp add: hex_loop_step)

text \<open>
  C2. For every integer \<open>n \<ge> 0\<close>, reading the binary string of \<^verbatim>\<open>_convert_number\<close> in base
  2 and its hexadecimal string in base 16 both give \<open>n\<close> back; the hexadecimal string uses
  only the characters \<^verbatim>\<open>0-9A-F\<close>, and 0 is rendered as the single character \<^verbatim>\<open>0\<close> in both
  bases.
\<close>

theorem convert_nonneg_roundtrip:
  "0 \<le> n \<Longrightarrow>
     numeral_value 2 (fst (convert_number n)) = Some n \<and>
     numeral_value 16 (snd (convert_number n)) = Some n \<and>
     set (snd (convert_number n)) \<subseteq> set hex_digits \<and>
     convert_number 0 = (''0'', ''0'')"
proof (cases "n = 0")
  case True
  then show ?thesis
    by (simp add: convert_number_def to_binary_nonneg_def to_hex_nonneg_def
        numeral_value_def digit_value_def hex_digits_def)
next
  case False
  assume "0 \<le> n"
  with False have pos: "0 < n" by simp
  have b: "numeral_value 2 (to_binary_nonneg n) = Some n"
    using pos binary_loop_value[of n] binary_loop_nonempty[OF pos]
    by (simp add: to_binary_nonneg_def numeral_value_def)
  have h: "numeral_value 16 (to_hex_nonneg n) = Some n"
    using pos hex_loop_value[of n] hex_loop_nonempty[OF pos]
    by (simp add: to_hex_nonneg_def numeral_value_def)
  have a: "set (to_hex_nonneg n) \<subseteq> set hex_digits"
    using pos hex_loop_alphabet[of n] by (simp add: to_hex_nonneg_def)
  have z: "convert_number 0 = (''0'', ''0'')"
    by (simp add: convert_number_def to_binary_nonneg_def to_hex_nonneg_def)
  show ?thesis using pos b h a z by (simp add: convert_number_def)
qed

theorem convert_nonneg_roundtrip_witness:
  "(0::int) \<le> 255 \<and> convert_number 255 = (''11111111'', ''FF'') \<and>
     numeral_value 2 ''11111111'' = Some 255 \<and> numeral_value 16 ''FF'' = Some 255"
proof -
  have c: "convert_number 255 = (''11111111'', ''FF'')" by code_simp
  show ?thesis using convert_nonneg_roundtrip[of 255] unfolding c by simp
qed

lemma binary_loop_bits: "set (binary_loop x []) \<subseteq> {CHR ''0'', CHR ''1''}"
proof (induction "nat x" arbitrary: x rule: less_induct)
  case less
  show ?case
  proof (cases "x > 0")
    case True
    have lt: "nat (x div 2) < nat x" using True by simp
    show ?thesis using True less(1)[OF lt] by (auto simp: binary_loop_step)
  next
    case False
    then show ?thesis by (simp add: binary_loop.simps[of x])
  qed
qed

lemma binary_loop_length: "0 \<le> x \<Longrightarrow> x < 2 ^ k \<Longrightarrow> length (binary_loop x []) \<le> k"
proof (induction k arbitrary: x)
  case 0
  then have "x = 0" by simp
  then show ?case by (simp add: binary_loop.simps[of 0])
next
  case (Suc k)
  show ?case
  proof (cases "x > 0")
    case True
    have "x div 2 < 2 ^ k" using Suc.prems by simp
    moreover have "0 \<le> x div 2" using Suc.prems by simp
    ultimately have "length (binary_loop (x div 2) []) \<le> k" by (rule Suc.IH[rotated])
    then show ?thesis using True by (simp add: binary_loop_step)
  next
    case False
    then show ?thesis by (simp add: binary_loop.simps[of x])
  qed
qed

lemma read_bits:
  "set s \<subseteq> {CHR ''0'', CHR ''1''} \<Longrightarrow>
     numeral_acc 2 a s = Some (foldl (\<lambda>val ch. val * 2 + (if ch = CHR ''1'' then 1 else 0)) a s)"
  by (induction s arbitrary: a) (auto simp: digit_value_def)

lemma read_bits_zeros:
  "foldl (\<lambda>val ch. val * 2 + (if ch = CHR ''1'' then 1 else 0)) (0::int) (replicate k (CHR ''0'') @ s)
     = foldl (\<lambda>val ch. val * 2 + (if ch = CHR ''1'' then 1 else 0)) 0 s"
  by (induction k) simp_all

lemma to_binary_nonneg_bits: "0 \<le> v \<Longrightarrow> set (to_binary_nonneg v) \<subseteq> {CHR ''0'', CHR ''1''}"
  using binary_loop_bits[of v] by (auto simp: to_binary_nonneg_def)

lemma to_binary_nonneg_value:
  "0 \<le> v \<Longrightarrow> foldl (\<lambda>val ch. val * 2 + (if ch = CHR ''1'' then 1 else 0)) 0 (to_binary_nonneg v) = v"
proof -
  assume v: "0 \<le> v"
  have "numeral_acc 2 0 (to_binary_nonneg v) = Some v"
    using binary_loop_value[OF v] by (simp add: to_binary_nonneg_def digit_value_def)
  then show ?thesis using read_bits[OF to_binary_nonneg_bits[OF v], of 0] by simp
qed

lemma to_binary_nonneg_length: "0 \<le> v \<Longrightarrow> v < 2 ^ 10 \<Longrightarrow> length (to_binary_nonneg v) \<le> 10"
  using binary_loop_length[of v 10] by (simp add: to_binary_nonneg_def)

text \<open>
  For an integer \<open>n\<close> with \<open>-1024 \<le> n < 0\<close>, the binary string has exactly ten bits and
  reads as \<open>2 ^ 10 + n\<close>, and the hexadecimal string is the rendering of \<open>2 ^ 10 + n\<close>,
  padded to two digits with zeros and then to ten with \<^verbatim>\<open>F\<close>.
\<close>

lemma convert_negative_in_range:
  assumes "- 1024 \<le> n" and "n < 0"
  shows "length (fst (convert_number n)) = 10 \<and>
         set (fst (convert_number n)) \<subseteq> {CHR ''0'', CHR ''1''} \<and>
         numeral_value 2 (fst (convert_number n)) = Some (2 ^ 10 + n) \<and>
         snd (convert_number n) =
           (let h = to_hex_nonneg (2 ^ 10 + n);
                h = (if length h < 2 then replicate (2 - length h) (CHR ''0'') @ h else h)
            in if length h < 10 then replicate (10 - length h) (CHR ''F'') @ h else h)"
proof -
  let ?v = "2 ^ 10 + n :: int"
  let ?b = "to_binary_nonneg ?v"
  let ?bin = "replicate (10 - length ?b) (CHR ''0'') @ ?b"
  have v: "0 \<le> ?v" "?v < 2 ^ 10" using assms by simp_all
  have len: "length ?b \<le> 10" by (rule to_binary_nonneg_length[OF v])
  have bin: "to_twos_complement_binary_10bit n = ?bin"
    using len by (auto simp: to_twos_complement_binary_10bit_def BIN_NEG_BITS_def Let_def)
  have bits: "set ?bin \<subseteq> {CHR ''0'', CHR ''1''}"
    using to_binary_nonneg_bits[OF v(1)] by auto
  have val: "foldl (\<lambda>val ch. val * 2 + (if ch = CHR ''1'' then 1 else 0)) 0 ?bin = ?v"
    unfolding read_bits_zeros by (rule to_binary_nonneg_value[OF v(1)])
  have ne: "?bin \<noteq> []" using len by (cases "length ?b = 10") auto
  have nv: "numeral_value 2 ?bin = Some ?v"
    using read_bits[OF bits, of 0] val ne by (simp add: numeral_value_def)
  have hex: "to_sign_extended_hex_10digits_from_bin ?bin =
           (let h = to_hex_nonneg ?v;
                h = (if length h < 2 then replicate (2 - length h) (CHR ''0'') @ h else h)
            in if length h < 10 then replicate (10 - length h) (CHR ''F'') @ h else h)"
    unfolding to_sign_extended_hex_10digits_from_bin_def val HEX_NEG_DIGITS_def by (simp add: Let_def)
  have c: "convert_number n = (?bin, to_sign_extended_hex_10digits_from_bin ?bin)"
    using assms(2) by (simp add: convert_number_def bin Let_def)
  show ?thesis unfolding c fst_conv snd_conv hex using len bits nv by simp
qed

text \<open>
  C1. The module's documentation gives \<^verbatim>\<open>-6 -> BIN 1111111010, HEX FFFFFFFFFA\<close>. The binary
  strings are the 10-bit two's-complement patterns, but the value of a 10-bit pattern with
  its top bit set has three hexadecimal digits, the first of them 3, and the padding with
  \<^verbatim>\<open>F\<close> is put in front of those three: the results for -6 and -1 are \<^verbatim>\<open>FFFFFFF3FA\<close> and
  \<^verbatim>\<open>FFFFFFF3FF\<close>.
\<close>

theorem convert_negative_hex_not_sign_extended:
  "convert_number (- 6) = (''1111111010'', ''FFFFFFF3FA'') \<and>
   convert_number (- 1) = (''1111111111'', ''FFFFFFF3FF'')"
  by code_simp

subsection \<open>Blank lines and tokens\<close>

lemma dropWhile_twice_Nil:
  "rev (dropWhile p (rev (dropWhile p s))) = [] \<longleftrightarrow> (\<forall>c\<in>set s. p c)"
proof (cases "dropWhile p s")
  case Nil
  then have "\<forall>c\<in>set s. p c" by (simp add: dropWhile_eq_Nil_conv)
  then show ?thesis unfolding Nil by simp
next
  case (Cons a as)
  then have "\<not> p a" using hd_dropWhile[of p s] by simp
  moreover have "a \<in> set s" using Cons set_dropWhileD[of a p s] by simp
  ultimately show ?thesis using Cons by (auto simp: dropWhile_eq_Nil_conv)
qed

lemma strip_Nil_iff: "strip s = [] \<longleftrightarrow> (\<forall>c\<in>set s. isspace c)"
  unfolding strip_def rstrip_chars_def lstrip_chars_def by (rule dropWhile_twice_Nil)

lemma tokenize_loop_nonempty:
  "foldl tokenize_step (words, current) cs = (ws, cur) \<Longrightarrow>
     (ws \<noteq> [] \<or> cur \<noteq> []) \<longleftrightarrow>
     (words \<noteq> [] \<or> current \<noteq> [] \<or> (\<exists>c\<in>set cs. \<not> isspace c))"
proof (induction cs arbitrary: words current)
  case Nil
  then show ?case by auto
next
  case (Cons ch cs)
  show ?case
  proof (cases "isspace ch")
    case True
    then show ?thesis using Cons.IH Cons.prems
      by (cases "current = []") (auto simp: tokenize_step_def)
  next
    case False
    then show ?thesis using Cons.IH[of words "current @ [ch]"] Cons.prems
      by (auto simp: tokenize_step_def)
  qed
qed

lemma tokenize_Nil_iff: "tokenize cs = [] \<longleftrightarrow> (\<forall>c\<in>set cs. isspace c)"
proof -
  obtain ws cur where r: "foldl tokenize_step ([], []) cs = (ws, cur)"
    by (cases "foldl tokenize_step ([], []) cs")
  from tokenize_loop_nonempty[OF r] have "(ws \<noteq> [] \<or> cur \<noteq> []) \<longleftrightarrow> (\<exists>c\<in>set cs. \<not> isspace c)"
    by simp
  then show ?thesis unfolding tokenize_def r by auto
qed

lemma read_words_line_cases:
  "read_words_line line_num raw_line (all_words, out) =
     (if strip (strip_newlines raw_line) = []
      then (all_words, out @ print_line (''Invalid data at line '' @ str_nat line_num
                                          @ '': empty line (ignored)''))
      else (all_words @ tokenize (strip_newlines raw_line), out))"
  by (simp add: read_words_line_def Let_def tokenize_Nil_iff strip_Nil_iff)

subsection \<open>First occurrences and dictionaries\<close>

lemma first_seen_snoc:
  "first_seen (xs @ [x]) = (if x \<in> set xs then first_seen xs else first_seen xs @ [x])"
  by (simp add: first_seen_def)

lemma first_seen_Nil: "first_seen [] = []"
  by (simp add: first_seen_def)

lemma set_first_seen: "set (first_seen xs) = set xs"
  by (simp add: first_seen_def)

lemma distinct_first_seen: "distinct (first_seen xs)"
  by (simp add: first_seen_def)

lemma first_index_snoc_old: "x \<in> set xs \<Longrightarrow> first_index (xs @ [y]) x = first_index xs x"
  by (simp add: first_index_def takeWhile_append1)

lemma first_index_snoc_new: "x \<notin> set xs \<Longrightarrow> first_index (xs @ [x]) x = length xs"
  by (induction xs) (auto simp: first_index_def)

lemma first_index_less: "x \<in> set xs \<Longrightarrow> first_index xs x < length xs"
  by (induction xs) (auto simp: first_index_def)

lemma first_seen_sorted:
  "sorted_wrt (\<lambda>u v. first_index xs u < first_index xs v) (first_seen xs)"
proof (induction xs rule: rev_induct)
  case Nil
  show ?case by (simp add: first_seen_Nil)
next
  case (snoc x xs)
  have old: "sorted_wrt (\<lambda>u v. first_index (xs @ [x]) u < first_index (xs @ [x]) v) (first_seen xs)"
    using snoc
    by (rule sorted_wrt_mono_rel[rotated]) (simp add: set_first_seen first_index_snoc_old)
  show ?case
  proof (cases "x \<in> set xs")
    case True
    then show ?thesis using old by (simp add: first_seen_snoc)
  next
    case False
    then show ?thesis using old
      by (auto simp: first_seen_snoc sorted_wrt_append set_first_seen
          first_index_snoc_old first_index_snoc_new first_index_less)
  qed
qed

lemma map_of_dict_set: "map_of (dict_set d k v) = (map_of d)(k \<mapsto> v)"
  by (induction d k v rule: dict_set.induct) auto

lemma keys_dict_set:
  "map fst (dict_set d k v) = (if k \<in> fst ` set d then map fst d else map fst d @ [k])"
  by (induction d k v rule: dict_set.induct) auto

lemma sum_dict_set_incr:
  "sum_list (map snd (dict_set d k (dict_get d k 0 + 1))) = sum_list (map snd d) + (1::nat)"
  by (induction d) (auto simp: dict_get_def)

lemma sum_dict_set_new:
  "map_of d k = None \<Longrightarrow> sum_list (map snd (dict_set d k (1::nat))) = sum_list (map snd d) + 1"
  by (induction d) (auto split: if_splits)

lemma count_words_invariant:
  "foldl count_words_step ([], []) ws = (counts, order) \<Longrightarrow>
     map fst counts = order \<and> order = first_seen ws \<and>
     map_of counts = (\<lambda>w. if w \<in> set ws then Some (count_list ws w) else None) \<and>
     sum_list (map snd counts) = length ws"
proof (induction ws arbitrary: counts order rule: rev_induct)
  case Nil
  then show ?case by (auto simp: first_seen_Nil)
next
  case (snoc w ws)
  obtain c0 o0 where r: "foldl count_words_step ([], []) ws = (c0, o0)"
    by (cases "foldl count_words_step ([], []) ws")
  note ih = snoc.IH[OF r]
  have keys: "fst ` set c0 = set ws"
    using ih set_first_seen[of ws] by (metis set_map)
  have mo: "map_of c0 w = (if w \<in> set ws then Some (count_list ws w) else None)"
    using ih by simp
  have step: "count_words_step (c0, o0) w = (counts, order)"
    using snoc.prems r by simp
  show ?case
  proof (cases "w \<in> set ws")
    case True
    then have c: "counts = dict_set c0 w (dict_get c0 w 0 + 1)" and o: "order = o0"
      using step mo by (auto simp: count_words_step_def dict_contains_def)
    have g: "dict_get c0 w 0 = count_list ws w" using mo True by (simp add: dict_get_def)
    have sm: "sum_list (map snd counts) = sum_list (map snd c0) + 1"
      unfolding c by (rule sum_dict_set_incr)
    have mp: "map_of counts = (map_of c0)(w \<mapsto> count_list ws w + 1)"
      unfolding c g by (rule map_of_dict_set)
    have ks: "map fst counts = map fst c0"
      unfolding c using True keys by (simp add: keys_dict_set)
    show ?thesis
      using True ih sm
      by (auto simp: o ks mp first_seen_snoc fun_eq_iff)
  next
    case False
    then have c: "counts = dict_set c0 w 1" and o: "order = o0 @ [w]"
      using step mo by (auto simp: count_words_step_def dict_contains_def)
    have n: "map_of c0 w = None" using mo False by simp
    have sm: "sum_list (map snd counts) = sum_list (map snd c0) + 1"
      unfolding c by (rule sum_dict_set_new[OF n])
    have mp: "map_of counts = (map_of c0)(w \<mapsto> 1)"
      unfolding c by (rule map_of_dict_set)
    have ks: "map fst counts = map fst c0 @ [w]"
      unfolding c using False keys by (simp add: keys_dict_set)
    show ?thesis
      using False ih sm
      by (auto simp: o ks mp first_seen_snoc fun_eq_iff)
  qed
qed

subsection \<open>The loops of the mode\<close>

lemma mode_count_invariant:
  "foldl mode_count_step ([], []) (enumerate 0 vs) = (freq, first_pos) \<Longrightarrow>
     map fst freq = first_seen vs \<and>
     map_of freq = (\<lambda>v. if v \<in> set vs then Some (count_list vs v) else None) \<and>
     map_of first_pos = (\<lambda>v. if v \<in> set vs then Some (first_index vs v) else None)"
proof (induction vs arbitrary: freq first_pos rule: rev_induct)
  case Nil
  then show ?case by (auto simp: first_seen_Nil)
next
  case (snoc v vs)
  obtain f0 p0 where r: "foldl mode_count_step ([], []) (enumerate 0 vs) = (f0, p0)"
    by (cases "foldl mode_count_step ([], []) (enumerate 0 vs)")
  note ih = snoc.IH[OF r]
  have keys: "fst ` set f0 = set vs"
    using ih set_first_seen[of vs] by (metis set_map)
  have step: "mode_count_step (f0, p0) (length vs, v) = (freq, first_pos)"
    using snoc.prems r by (simp add: enumerate_append_eq)
  then have f: "freq = dict_set f0 v (dict_get f0 v 0 + 1)"
    and p: "first_pos = (if \<not> dict_contains p0 v then dict_set p0 v (length vs) else p0)"
    by (auto simp: mode_count_step_def)
  have mf: "map_of freq = (map_of f0)(v \<mapsto> dict_get f0 v 0 + 1)"
    unfolding f by (rule map_of_dict_set)
  show ?case
  proof (cases "v \<in> set vs")
    case True
    have g: "dict_get f0 v 0 = count_list vs v" using ih True by (simp add: dict_get_def)
    have ks: "map fst freq = map fst f0"
      unfolding f using True keys by (simp add: keys_dict_set)
    have pp: "first_pos = p0" using p ih True by (simp add: dict_contains_def)
    show ?thesis
      using True ih
      by (auto simp: ks mf g pp first_seen_snoc fun_eq_iff first_index_snoc_old)
  next
    case False
    have g: "dict_get f0 v 0 = 0" using ih False by (simp add: dict_get_def)
    have ks: "map fst freq = map fst f0 @ [v]"
      unfolding f using False keys by (simp add: keys_dict_set)
    have pp: "first_pos = dict_set p0 v (length vs)" using p ih False by (simp add: dict_contains_def)
    have mp: "map_of first_pos = (map_of p0)(v \<mapsto> length vs)"
      unfolding pp by (rule map_of_dict_set)
    show ?thesis
      using False ih
      by (auto simp: ks mf g mp first_seen_snoc fun_eq_iff first_index_snoc_old first_index_snoc_new)
  qed
qed

lemma foldl_max_nat: "foldl (\<lambda>m c. max m c) (a::nat) cs = Max (insert a (set cs))"
proof (induction cs arbitrary: a)
  case Nil
  show ?case by simp
next
  case (Cons c cs)
  have "Max (insert (max a c) (set cs)) = Max (insert a (insert c (set cs)))"
    by (cases "set cs = {}") (auto simp: max.assoc)
  then show ?case using Cons by simp
qed

lemma mode_select_min:
  assumes "\<And>v c. (v, c) \<in> set items \<Longrightarrow> map_of fp v = Some (P v)"
    and "bf = map_option P bv"
  shows "\<exists>r. mode_select m fp items bv bf = Inr (r, map_option P r) \<and>
           (r = bv \<or> (\<exists>x. r = Some x \<and> (x, m) \<in> set items)) \<and>
           (\<forall>w. (w, m) \<in> set items \<longrightarrow> (\<exists>x. r = Some x \<and> P x \<le> P w)) \<and>
           (\<forall>b. bv = Some b \<longrightarrow> (\<exists>x. r = Some x \<and> P x \<le> P b))"
  using assms
proof (induction items arbitrary: bv bf)
  case Nil
  then show ?case by auto
next
  case (Cons item items)
  obtain v c where item: "item = (v, c)" by (cases item)
  have fp: "\<And>v c. (v, c) \<in> set items \<Longrightarrow> map_of fp v = Some (P v)"
    using Cons.prems(1) by auto
  have gv: "dict_getitem fp v = Inr (P v)"
    using Cons.prems(1)[of v c] item by (simp add: dict_getitem_def)
  show ?case
  proof (cases "c = m \<and> (case bf of None \<Rightarrow> True | Some b \<Rightarrow> P v < b)")
    case True
    have eq: "mode_select m fp ((v, c) # items) bv bf = mode_select m fp items (Some v) (Some (P v))"
      using True gv by simp
    have "\<exists>r. mode_select m fp items (Some v) (Some (P v)) = Inr (r, map_option P r) \<and>
           (r = Some v \<or> (\<exists>x. r = Some x \<and> (x, m) \<in> set items)) \<and>
           (\<forall>w. (w, m) \<in> set items \<longrightarrow> (\<exists>x. r = Some x \<and> P x \<le> P w)) \<and>
           (\<forall>b. Some v = Some b \<longrightarrow> (\<exists>x. r = Some x \<and> P x \<le> P b))"
      by (rule Cons.IH) (simp_all add: fp)
    then obtain r where
      r: "mode_select m fp items (Some v) (Some (P v)) = Inr (r, map_option P r)"
        "r = Some v \<or> (\<exists>x. r = Some x \<and> (x, m) \<in> set items)"
        "\<forall>w. (w, m) \<in> set items \<longrightarrow> (\<exists>x. r = Some x \<and> P x \<le> P w)"
        "\<exists>x. r = Some x \<and> P x \<le> P v"
      by auto
    have "\<forall>b. bv = Some b \<longrightarrow> (\<exists>x. r = Some x \<and> P x \<le> P b)"
      using True r(4) Cons.prems(2) by (auto split: option.splits)
    then show ?thesis using r True unfolding item eq by auto
  next
    case False
    have eq: "mode_select m fp ((v, c) # items) bv bf = mode_select m fp items bv bf"
      using False gv by auto
    have "\<exists>r. mode_select m fp items bv bf = Inr (r, map_option P r) \<and>
           (r = bv \<or> (\<exists>x. r = Some x \<and> (x, m) \<in> set items)) \<and>
           (\<forall>w. (w, m) \<in> set items \<longrightarrow> (\<exists>x. r = Some x \<and> P x \<le> P w)) \<and>
           (\<forall>b. bv = Some b \<longrightarrow> (\<exists>x. r = Some x \<and> P x \<le> P b))"
      by (rule Cons.IH) (simp_all add: fp Cons.prems(2))
    then obtain r where
      r: "mode_select m fp items bv bf = Inr (r, map_option P r)"
        "r = bv \<or> (\<exists>x. r = Some x \<and> (x, m) \<in> set items)"
        "\<forall>w. (w, m) \<in> set items \<longrightarrow> (\<exists>x. r = Some x \<and> P x \<le> P w)"
        "\<forall>b. bv = Some b \<longrightarrow> (\<exists>x. r = Some x \<and> P x \<le> P b)"
      by auto
    have "c = m \<longrightarrow> (\<exists>x. r = Some x \<and> P x \<le> P v)"
    proof
      assume "c = m"
      with False obtain b where b: "bf = Some b" "\<not> P v < b" by (auto split: option.splits)
      with Cons.prems(2) obtain b0 where "bv = Some b0" "b = P b0" by (cases bv) auto
      with r(4) b show "\<exists>x. r = Some x \<and> P x \<le> P v" by fastforce
    qed
    then show ?thesis using r unfolding item eq by auto
  qed
qed

lemma mode_items:
  assumes "foldl mode_count_step ([], []) (enumerate 0 vs) = (freq, first_pos)"
  shows "(v, c) \<in> set freq \<longleftrightarrow> v \<in> set vs \<and> c = count_list vs v"
proof -
  note inv = mode_count_invariant[OF assms]
  have d: "distinct (map fst freq)" using inv by (simp add: distinct_first_seen)
  have mo: "map_of freq v = (if v \<in> set vs then Some (count_list vs v) else None)"
    using inv by simp
  show ?thesis
  proof
    assume "(v, c) \<in> set freq"
    then have "map_of freq v = Some c" using d by simp
    then show "v \<in> set vs \<and> c = count_list vs v" using mo by (auto split: if_splits)
  next
    assume "v \<in> set vs \<and> c = count_list vs v"
    then have "map_of freq v = Some c" using mo by simp
    then show "(v, c) \<in> set freq" by (rule map_of_SomeD)
  qed
qed

lemma mode_max_count:
  assumes "foldl mode_count_step ([], []) (enumerate 0 vs) = (freq, first_pos)" and "vs \<noteq> []"
  shows "foldl (\<lambda>max_count c. max max_count c) 0 (map snd freq) = max_frequency vs"
proof -
  have "snd ` set freq = count_list vs ` set vs"
  proof (intro set_eqI iffI)
    fix c assume "c \<in> snd ` set freq"
    then obtain v where "(v, c) \<in> set freq" by auto
    then show "c \<in> count_list vs ` set vs" using mode_items[OF assms(1)] by auto
  next
    fix c assume "c \<in> count_list vs ` set vs"
    then obtain v where "v \<in> set vs" "c = count_list vs v" by auto
    then have "(v, c) \<in> set freq" using mode_items[OF assms(1)] by simp
    then show "c \<in> snd ` set freq" by force
  qed
  moreover have "count_list vs ` set vs \<noteq> {}" using assms(2) by simp
  ultimately show ?thesis
    by (simp add: foldl_max_nat max_frequency_def)
qed

lemma max_frequency_attained:
  "vs \<noteq> [] \<Longrightarrow> \<exists>v\<in>set vs. count_list vs v = max_frequency vs"
proof -
  assume "vs \<noteq> []"
  then have "Max (count_list vs ` set vs) \<in> count_list vs ` set vs"
    by (intro Max_in) simp_all
  then show ?thesis by (auto simp: max_frequency_def)
qed

lemma mode_of_Nil: "mode_of [] = Inr (False, None)"
  by (simp add: mode_of_def)

lemma mode_of_spec:
  assumes "vs \<noteq> []"
  shows "(max_frequency vs \<le> 1 \<longrightarrow> mode_of vs = Inr (False, None)) \<and>
         (1 < max_frequency vs \<longrightarrow>
            (\<exists>m. mode_of vs = Inr (True, Some m) \<and> m \<in> set vs \<and>
                 count_list vs m = max_frequency vs \<and>
                 (\<forall>w\<in>set vs. count_list vs w = max_frequency vs \<longrightarrow>
                     first_index vs m \<le> first_index vs w)))"
proof -
  obtain freq first_pos where r: "foldl mode_count_step ([], []) (enumerate 0 vs) = (freq, first_pos)"
    by (cases "foldl mode_count_step ([], []) (enumerate 0 vs)")
  note inv = mode_count_invariant[OF r]
  note items = mode_items[OF r]
  note mc = mode_max_count[OF r assms]
  let ?m = "max_frequency vs"
  have small: "?m \<le> 1 \<Longrightarrow> mode_of vs = Inr (False, None)"
    by (simp add: mode_of_def r mc)
  have big: "\<exists>m. mode_of vs = Inr (True, Some m) \<and> m \<in> set vs \<and>
                 count_list vs m = ?m \<and>
                 (\<forall>w\<in>set vs. count_list vs w = ?m \<longrightarrow> first_index vs m \<le> first_index vs w)"
    if gt: "1 < ?m"
  proof -
    have fp: "\<And>v c. (v, c) \<in> set freq \<Longrightarrow> map_of first_pos v = Some (first_index vs v)"
      using items inv by simp
    have "\<exists>r. mode_select ?m first_pos freq None None = Inr (r, map_option (first_index vs) r) \<and>
           (r = None \<or> (\<exists>x. r = Some x \<and> (x, ?m) \<in> set freq)) \<and>
           (\<forall>w. (w, ?m) \<in> set freq \<longrightarrow> (\<exists>x. r = Some x \<and> first_index vs x \<le> first_index vs w)) \<and>
           (\<forall>b. None = Some b \<longrightarrow> (\<exists>x. r = Some x \<and> first_index vs x \<le> first_index vs b))"
      by (rule mode_select_min) (simp_all add: fp)
    then obtain res where
      res: "mode_select ?m first_pos freq None None = Inr (res, map_option (first_index vs) res)"
        "res = None \<or> (\<exists>x. res = Some x \<and> (x, ?m) \<in> set freq)"
        "\<forall>w. (w, ?m) \<in> set freq \<longrightarrow> (\<exists>x. res = Some x \<and> first_index vs x \<le> first_index vs w)"
      by auto
    from max_frequency_attained[OF assms] obtain v where v: "v \<in> set vs" "count_list vs v = ?m"
      by auto
    then have "(v, ?m) \<in> set freq" using items by simp
    with res(3) obtain x where x: "res = Some x" by auto
    with res(2) have xm: "(x, ?m) \<in> set freq" by auto
    then have xs: "x \<in> set vs" "count_list vs x = ?m" using items by auto
    have min: "\<forall>w\<in>set vs. count_list vs w = ?m \<longrightarrow> first_index vs x \<le> first_index vs w"
      using res(3) x items by auto
    have "mode_of vs = Inr (True, Some x)"
      using gt by (simp add: mode_of_def r mc res(1) x)
    then show ?thesis using xs min by auto
  qed
  show ?thesis using small big by auto
qed

lemma mode_of_total: "\<exists>has_mode mode_val. mode_of vs = Inr (has_mode, mode_val) \<and> (has_mode \<longrightarrow> mode_val \<noteq> None)"
proof (cases "vs = []")
  case True
  then show ?thesis by (auto simp: mode_of_Nil)
next
  case False
  from mode_of_spec[OF False] show ?thesis
    by (cases "max_frequency vs \<le> 1") auto
qed

subsection \<open>Median, mean and variance\<close>

lemma median_of_middle:
  assumes "sv \<noteq> []"
  shows "median_of sv =
           Inr (if odd (length sv) then sv ! (length sv div 2)
                else (sv ! (length sv div 2 - 1) + sv ! (length sv div 2)) / 2)"
proof -
  let ?n = "length sv"
  have pos: "0 < ?n" using assms by simp
  have mid: "nat (int ?n div 2) = ?n div 2" by (simp add: nat_div_distrib)
  have hi: "int ?n div 2 < int ?n" "0 \<le> int ?n div 2" using pos by presburger+
  have i1: "py_index sv (int ?n div 2) = Inr (sv ! (?n div 2))"
    using hi by (simp add: py_index_def mid)
  show ?thesis
  proof (cases "odd ?n")
    case True
    then have "int ?n mod 2 = 1" by presburger
    then show ?thesis using True pos i1 by (simp add: median_of_def Let_def)
  next
    case False
    then have m: "int ?n mod 2 = 0" by presburger
    have ge: "2 \<le> ?n" using False pos by presburger
    have lo: "0 \<le> int ?n div 2 - 1" "int ?n div 2 - 1 < int ?n" using ge by auto
    have "nat (int ?n div 2 - 1) = ?n div 2 - 1" using ge by (simp add: nat_diff_distrib nat_div_distrib)
    then have i0: "py_index sv (int ?n div 2 - 1) = Inr (sv ! (?n div 2 - 1))"
      using lo by (simp add: py_index_def)
    show ?thesis using False pos i0 i1 m by (simp add: median_of_def Let_def)
  qed
qed

lemma median_of_Nil: "median_of [] = Inr 0"
  by (simp add: median_of_def)





lemma compute_statistics_result:
  assumes "mode_of vs = Inr (hm, mv)"
  shows "compute_statistics vs el =
           (if hm \<and> mv = None then Inl TypeError
            else Inr \<lparr>count = int (length vs), mean = mean_of vs,
                      median = (if vs = [] then 0
                                else if odd (length vs) then sort vs ! (length vs div 2)
                                else (sort vs ! (length vs div 2 - 1) + sort vs ! (length vs div 2)) / 2),
                      mode = (if hm then format_number (the mv) else ''#N/A''),
                      sd = sqrt (population_variance vs (mean_of vs)),
                      variance = population_variance vs (mean_of vs),
                      elapsed = el\<rparr>)"
proof (cases "vs = []")
  case True
  then show ?thesis using assms
    by (auto simp: compute_statistics_def Let_def median_of_Nil mode_of_Nil population_std_def)
next
  case False
  then have s: "sort vs \<noteq> []" by (metis length_sort length_0_conv)
  show ?thesis
    using False assms median_of_middle[OF s]
    by (cases mv) (auto simp: compute_statistics_def Let_def population_std_def)
qed

subsection \<open>Digits and the fixed-point rendering\<close>

lemma str_nat_numeral:
  "str_nat (numeral k) =
     (if numeral k < (10::nat) then [digit_char (numeral k)]
      else str_nat (numeral k div 10) @ [digit_char (numeral k mod 10)])"
  by (rule str_nat.simps)

lemma str_nat_0: "str_nat 0 = ''0''"
  by (simp add: str_nat.simps[of 0] digit_char_def)

lemma str_nat_1: "str_nat 1 = ''1''" "str_nat (Suc 0) = ''1''"
  by (simp_all add: str_nat.simps[of 1] str_nat.simps[of "Suc 0"] digit_char_def)

lemma replicate_numeral_eval: "replicate (numeral k) x = x # replicate (pred_numeral k) x"
  by (simp add: numeral_eq_Suc)

lemmas str_nat_eval = str_nat_numeral str_nat_0 str_nat_1 digit_char_def replicate_numeral_eval

lemmas format_eval = format_number_def format_f10_def round_half_even_def Let_def rstrip_chars_def
  str_nat_eval

lemma digit_char_is_digit: "d < 10 \<Longrightarrow> is_digit (digit_char d)"
proof -
  assume "d < 10"
  then have "d = 0 \<or> d = 1 \<or> d = 2 \<or> d = 3 \<or> d = 4 \<or> d = 5 \<or> d = 6 \<or> d = 7 \<or> d = 8 \<or> d = 9"
    by presburger
  then show ?thesis by (elim disjE) (simp_all add: digit_char_def is_digit_def)
qed

lemma str_nat_digits: "list_all is_digit (str_nat n)"
proof (induction n rule: str_nat.induct)
  case (1 n)
  show ?case
  proof (cases "n < 10")
    case True
    then show ?thesis by (simp add: str_nat.simps[of n] digit_char_is_digit)
  next
    case False
    then show ?thesis using 1 by (simp add: str_nat.simps[of n] digit_char_is_digit)
  qed
qed

lemma str_nat_nonempty: "str_nat n \<noteq> []"
  by (simp add: str_nat.simps[of n])

lemma str_nat_length: "n < 10 ^ k \<Longrightarrow> 0 < k \<Longrightarrow> length (str_nat n) \<le> k"
proof (induction k arbitrary: n)
  case 0
  then show ?case by simp
next
  case (Suc k)
  show ?case
  proof (cases "n < 10")
    case True
    then show ?thesis by (simp add: str_nat.simps[of n])
  next
    case False
    then have k: "0 < k" using Suc.prems by (cases k) auto
    have "n div 10 < 10 ^ k" using Suc.prems by (simp add: less_mult_imp_div_less mult.commute)
    from Suc.IH[OF this k] show ?thesis using False by (simp add: str_nat.simps[of n])
  qed
qed

lemma rstrip_chars_subset: "set (rstrip_chars p s) \<subseteq> set s"
  using set_dropWhileD[of _ p "rev s"] by (auto simp: rstrip_chars_def)

lemma rstrip_chars_length: "length (rstrip_chars p s) \<le> length s"
  by (simp add: rstrip_chars_def length_dropWhile_le[of p "rev s", simplified])

lemma rstrip_chars_last: "rstrip_chars p s \<noteq> [] \<Longrightarrow> \<not> p (last (rstrip_chars p s))"
  using hd_dropWhile[of p "rev s"] by (simp add: rstrip_chars_def last_rev)

lemma rstrip_chars_stop: "\<not> p c \<Longrightarrow> rstrip_chars p (a @ c # b) = a @ c # rstrip_chars p b"
  by (auto simp: rstrip_chars_def dropWhile_append)

lemma rstrip_chars_id: "s \<noteq> [] \<Longrightarrow> \<not> p (last s) \<Longrightarrow> rstrip_chars p s = s"
  by (cases s rule: rev_cases) (auto simp: rstrip_chars_def)

lemma is_digit_not_point: "is_digit c \<Longrightarrow> c \<noteq> CHR ''.''"
  by (auto simp: is_digit_def)

lemma strip_shape:
  assumes ip: "ip \<noteq> []" "list_all is_digit ip" and fr: "list_all is_digit fds"
  defines "fz \<equiv> rstrip_chars (\<lambda>c. c = CHR ''0'') fds"
  shows "rstrip_chars (\<lambda>c. c = CHR ''.'') (rstrip_chars (\<lambda>c. c = CHR ''0'') (sg @ ip @ CHR ''.'' # fds))
           = sg @ ip @ (if fz = [] then [] else CHR ''.'' # fz)"
    and "strip_one_point (rstrip_chars (\<lambda>c. c = CHR ''0'') (sg @ ip @ CHR ''.'' # fds))
           = sg @ ip @ (if fz = [] then [] else CHR ''.'' # fz)"
proof -
  have s1: "rstrip_chars (\<lambda>c. c = CHR ''0'') (sg @ ip @ CHR ''.'' # fds) = sg @ ip @ CHR ''.'' # fz"
    using rstrip_chars_stop[of "\<lambda>c. c = CHR ''0''" "CHR ''.''" "sg @ ip" fds]
    by (simp add: fz_def)
  have lip: "last ip \<noteq> CHR ''.''"
    using ip by (intro is_digit_not_point) (simp add: list_all_iff)
  have a: "rstrip_chars (\<lambda>c. c = CHR ''.'') (sg @ ip @ ''.'') = sg @ ip"
  proof -
    have "rstrip_chars (\<lambda>c. c = CHR ''.'') (sg @ ip @ ''.'') = rstrip_chars (\<lambda>c. c = CHR ''.'') (sg @ ip)"
      by (simp add: rstrip_chars_def)
    also have "\<dots> = sg @ ip"
      using ip(1) lip by (intro rstrip_chars_id) simp_all
    finally show ?thesis .
  qed
  have b: "rstrip_chars (\<lambda>c. c = CHR ''.'') (sg @ ip @ CHR ''.'' # fz) = sg @ ip @ CHR ''.'' # fz"
    if nz: "fz \<noteq> []"
  proof -
    have "last fz \<in> set fds" using nz rstrip_chars_subset[of "\<lambda>c. c = CHR ''0''" fds]
      unfolding fz_def by (meson last_in_set subsetD)
    then have "last fz \<noteq> CHR ''.''" using fr by (intro is_digit_not_point) (simp add: list_all_iff)
    then show ?thesis using nz by (intro rstrip_chars_id) simp_all
  qed
  show "rstrip_chars (\<lambda>c. c = CHR ''.'') (rstrip_chars (\<lambda>c. c = CHR ''0'') (sg @ ip @ CHR ''.'' # fds))
           = sg @ ip @ (if fz = [] then [] else CHR ''.'' # fz)"
    unfolding s1 using a b by (cases "fz = []") simp_all
  have c: "strip_one_point (sg @ ip @ ''.'') = sg @ ip"
    by (simp add: strip_one_point_def butlast_append)
  have d: "strip_one_point (sg @ ip @ CHR ''.'' # fz) = sg @ ip @ CHR ''.'' # fz" if nz: "fz \<noteq> []"
  proof -
    have "last fz \<in> set fds" using nz rstrip_chars_subset[of "\<lambda>c. c = CHR ''0''" fds]
      unfolding fz_def by (meson last_in_set subsetD)
    then have "last fz \<noteq> CHR ''.''" using fr by (intro is_digit_not_point) (simp add: list_all_iff)
    then show ?thesis using nz by (simp add: strip_one_point_def)
  qed
  show "strip_one_point (rstrip_chars (\<lambda>c. c = CHR ''0'') (sg @ ip @ CHR ''.'' # fds))
           = sg @ ip @ (if fz = [] then [] else CHR ''.'' # fz)"
    unfolding s1 using c d by (cases "fz = []") simp_all
qed

lemma format_f10_shape:
  "\<exists>fds. format_f10 x = (if x < 0 then ''-'' else []) @
             str_nat (nat (round_half_even (\<bar>x\<bar> * 10 ^ 10) div 10 ^ 10)) @ CHR ''.'' # fds \<and>
          list_all is_digit fds \<and> length fds = 10 \<and>
          fds = replicate (10 - length (str_nat (nat (round_half_even (\<bar>x\<bar> * 10 ^ 10) mod 10 ^ 10))))
                   (CHR ''0'') @ str_nat (nat (round_half_even (\<bar>x\<bar> * 10 ^ 10) mod 10 ^ 10))"
proof -
  let ?q = "round_half_even (\<bar>x\<bar> * 10 ^ 10)"
  let ?fp = "str_nat (nat (?q mod 10 ^ 10))"
  have "nat (?q mod 10 ^ 10) < 10 ^ 10"
    by (simp add: nat_less_iff)
  then have len: "length ?fp \<le> 10" by (intro str_nat_length) simp_all
  have z: "is_digit (CHR ''0'')" by (simp add: is_digit_def)
  have "list_all is_digit (replicate (10 - length ?fp) (CHR ''0'') @ ?fp)"
    using str_nat_digits[of "nat (?q mod 10 ^ 10)"] z by (auto simp: list_all_iff)
  moreover have "length (replicate (10 - length ?fp) (CHR ''0'') @ ?fp) = 10"
    using len by simp
  ultimately show ?thesis
    by (simp add: format_f10_def Let_def)
qed

lemma format_number_shape:
  "\<exists>ip fz. format_number x = (if x < 0 then ''-'' else []) @ ip @ (if fz = [] then [] else CHR ''.'' # fz) \<and>
      format_spec x = format_number x \<and>
      ip = str_nat (nat (round_half_even (\<bar>x\<bar> * 10 ^ 10) div 10 ^ 10)) \<and>
      list_all is_digit fz \<and> length fz \<le> 10 \<and> (fz = [] \<or> last fz \<noteq> CHR ''0'')"
proof -
  let ?ip = "str_nat (nat (round_half_even (\<bar>x\<bar> * 10 ^ 10) div 10 ^ 10))"
  let ?sg = "if x < 0 then ''-'' else []"
  from format_f10_shape[of x] obtain fds where
    f: "format_f10 x = ?sg @ ?ip @ CHR ''.'' # fds" and d: "list_all is_digit fds" and l: "length fds = 10"
    by blast
  let ?fz = "rstrip_chars (\<lambda>c. c = CHR ''0'') fds"
  note sh = strip_shape[where sg = ?sg and ip = ?ip and fds = fds, OF str_nat_nonempty str_nat_digits d]
  have ne: "?sg @ ?ip @ (if ?fz = [] then [] else CHR ''.'' # ?fz) \<noteq> []"
    using str_nat_nonempty by simp
  have n: "format_number x = ?sg @ ?ip @ (if ?fz = [] then [] else CHR ''.'' # ?fz)"
    unfolding format_number_def f sh(1) Let_def using ne by simp
  have s: "format_spec x = ?sg @ ?ip @ (if ?fz = [] then [] else CHR ''.'' # ?fz)"
    unfolding format_spec_def f sh(2) Let_def using ne by simp
  have dz: "list_all is_digit ?fz"
    using d rstrip_chars_subset[of "\<lambda>c. c = CHR ''0''" fds] by (auto simp: list_all_iff)
  have lz: "length ?fz \<le> 10"
    using rstrip_chars_length[of "\<lambda>c. c = CHR ''0''" fds] l by simp
  have tz: "?fz = [] \<or> last ?fz \<noteq> CHR ''0''"
    using rstrip_chars_last[of "\<lambda>c. c = CHR ''0''" fds] by auto
  show ?thesis using n s dz lz tz by metis
qed

lemma round_half_even_int: "round_half_even (of_int k) = k"
  by (simp add: round_half_even_def)

lemma format_number_of_int: "format_number (of_int k) = str_int k"
proof -
  have q: "\<bar>real_of_int k\<bar> * 10 ^ 10 = of_int (\<bar>k\<bar> * 10 ^ 10)" by simp
  have r: "round_half_even (\<bar>real_of_int k\<bar> * 10 ^ 10) = \<bar>k\<bar> * 10 ^ 10"
    unfolding q by (rule round_half_even_int)
  have f: "format_f10 (of_int k) = (if k < 0 then ''-'' else []) @ str_nat (nat \<bar>k\<bar>) @ CHR ''.'' # replicate 10 (CHR ''0'')"
    unfolding format_f10_def r Let_def by (simp add: str_nat_0 replicate_numeral_eval)
  have z: "list_all is_digit (replicate 10 (CHR ''0''))" by (simp add: is_digit_def list_all_iff)
  have e: "rstrip_chars (\<lambda>c. c = CHR ''0'') (replicate 10 (CHR ''0'')) = []"
    by (simp add: rstrip_chars_def)
  note sh = strip_shape(1)[where sg = "if k < 0 then ''-'' else []" and ip = "str_nat (nat \<bar>k\<bar>)"
      and fds = "replicate 10 (CHR ''0'')", OF str_nat_nonempty str_nat_digits z]
  show ?thesis
    unfolding format_number_def f sh e Let_def
    using str_nat_nonempty[of "nat \<bar>k\<bar>"] by (auto simp: str_int_def)
qed

subsection \<open>The reading loops\<close>

lemma read_values_loop_eq:
  "read_values_loop pf n ls (vals, out) =
     (vals @ List.map_filter (try_parse_number pf) ls,
      out @ concat (map (\<lambda>(i, raw). case rejected_stats pf i raw of None \<Rightarrow> [] | Some m \<Rightarrow> print_line m)
                     (enumerate (Suc n) ls)))"
proof (induction ls arbitrary: n vals out)
  case Nil
  show ?case by (simp add: List.map_filter_simps)
next
  case (Cons raw ls)
  show ?case
    by (cases "try_parse_number pf raw")
       (simp_all add: Cons read_values_line_def rejected_stats_def Let_def List.map_filter_simps)
qed

lemma read_rows_loop_eq:
  "read_rows_loop n ls (rows, out) =
     (rows @ map conversion_row (List.map_filter parse_int ls),
      out @ concat (map (\<lambda>(i, raw). case rejected_conv i raw of None \<Rightarrow> [] | Some m \<Rightarrow> print_line m)
                     (enumerate (Suc n) ls)))"
proof (induction ls arbitrary: n rows out)
  case Nil
  show ?case by (simp add: List.map_filter_simps)
next
  case (Cons raw ls)
  show ?case
    by (cases "parse_int raw")
       (simp_all add: Cons read_rows_line_def rejected_conv_def Let_def List.map_filter_simps
          conversion_row_def split_beta)
qed

lemma read_words_loop_eq:
  "read_words_loop n ls (ws, out) =
     (ws @ concat (map (\<lambda>raw. tokenize (strip_newlines raw))
                    (filter (\<lambda>raw. strip (strip_newlines raw) \<noteq> []) ls)),
      out @ concat (map (\<lambda>(i, raw). case rejected_wc i raw of None \<Rightarrow> [] | Some m \<Rightarrow> print_line m)
                     (enumerate (Suc n) ls)))"
proof (induction ls arbitrary: n ws out)
  case Nil
  show ?case by simp
next
  case (Cons raw ls)
  show ?case
    by (simp add: Cons read_words_line_cases rejected_wc_def)
qed

lemma read_values_eq:
  "read_values pf file_path (Lines ls) =
     (Some (List.map_filter (try_parse_number pf) ls), diagnostics (rejected_stats pf) ls)"
  by (simp add: read_values_def read_values_loop_eq diagnostics_def)

lemma read_rows_eq:
  "read_rows file_path (Lines ls) =
     (Some (map conversion_row (List.map_filter parse_int ls)), None, diagnostics rejected_conv ls)"
  by (simp add: read_rows_def read_rows_loop_eq diagnostics_def)

lemma read_words_eq:
  "read_words_loop 0 ls ([], []) =
     (concat (map (\<lambda>raw. tokenize (strip_newlines raw))
                (filter (\<lambda>raw. strip (strip_newlines raw) \<noteq> []) ls)),
      diagnostics rejected_wc ls)"
  by (simp add: read_words_loop_eq diagnostics_def)

lemma build_report_conv_empty:
  "build_report_conv [] el =
     ''ITEM'' @ [CHR 0x09] @ ''VALUE'' @ [CHR 0x09] @ ''BIN'' @ [CHR 0x09] @ ''HEX'' @ [CHR 0x0A]
       @ time_line el @ [CHR 0x0A]"
  by (simp add: build_report_conv_def time_line_def)

lemma build_report_wc_empty:
  "build_report_wc [] [] el =
     Inr (''WORD'' @ [CHR 0x09] @ ''COUNT'' @ [CHR 0x0A] @ time_line el @ [CHR 0x0A])"
  by (simp add: build_report_wc_def time_line_def)

lemma main_stats_no_values:
  assumes "fs path = Lines ls" and "List.map_filter (try_parse_number pf) ls = []"
  shows "main_stats pf [prog, path] fs el we =
           Inr \<lparr>console = diagnostics (rejected_stats pf) ls
                            @ print_line ''Error: no valid numeric data found in the file.'',
                 results_file = None, exit_code = 1\<rparr>"
  using assms by (simp add: main_stats_def read_values_eq)

lemma main_conv_no_rows:
  assumes "fs path = Lines ls" and "List.map_filter parse_int ls = []"
  shows "main_conv [prog, path] fs el we =
           \<lparr>console = diagnostics rejected_conv ls @ build_report_conv [] el
                         @ write_warning RESULTS_FILE_conv we,
            results_file = written (build_report_conv [] el) we, exit_code = 0\<rparr>"
  using assms
  by (cases we) (simp_all add: main_conv_def read_rows_eq Let_def write_warning_def written_def)

lemma main_wc_no_words:
  assumes "fs path = Lines ls" and "filter (\<lambda>raw. strip (strip_newlines raw) \<noteq> []) ls = []"
  shows "\<exists>report. build_report_wc [] [] el = Inr report \<and>
          main_wc [prog, path] fs el we =
           Inr \<lparr>console = diagnostics rejected_wc ls @ report @ write_warning RESULTS_FILE_wc we,
                 results_file = written report we, exit_code = 0\<rparr>"
  using assms
  by (cases we)
     (simp_all add: main_wc_def read_words_eq Let_def write_warning_def written_def
        count_words_def build_report_wc_empty)

subsection \<open>Statistics\<close>

text \<open>
  C3. For a non-empty list of values, \<^verbatim>\<open>_mode\<close> reports no mode when the highest
  frequency is at most 1, and the report then shows \<^verbatim>\<open>#N/A\<close>; otherwise it returns a
  value of the highest frequency whose first occurrence comes no later than that of any
  other value of that frequency, and the report shows that value formatted. For
  \<^verbatim>\<open>[5, 3, 5, 3]\<close> the mode is 5.
\<close>

theorem mode_earliest_most_frequent:
  fixes vs :: "real list"
  assumes "vs \<noteq> []"
  shows "(max_frequency vs \<le> 1 \<longrightarrow>
            mode_of vs = Inr (False, None) \<and>
            map_sum id mode (compute_statistics vs el) = Inr ''#N/A'') \<and>
         (1 < max_frequency vs \<longrightarrow>
            (\<exists>m. mode_of vs = Inr (True, Some m) \<and> m \<in> set vs \<and>
                 count_list vs m = max_frequency vs \<and>
                 (\<forall>w\<in>set vs. count_list vs w = max_frequency vs \<longrightarrow>
                     first_index vs m \<le> first_index vs w) \<and>
                 map_sum id mode (compute_statistics vs el) = Inr (format_number m))) \<and>
         mode_of [5, 3, 5, 3 :: real] = Inr (True, Some 5)"
proof -
  note sp = mode_of_spec[OF assms]
  have a: "mode_of vs = Inr (False, None) \<and> map_sum id mode (compute_statistics vs el) = Inr ''#N/A''"
    if "max_frequency vs \<le> 1"
  proof -
    have m: "mode_of vs = Inr (False, None)" using sp that by simp
    show ?thesis using m compute_statistics_result[OF m, of el] by simp
  qed
  have b: "\<exists>m. mode_of vs = Inr (True, Some m) \<and> m \<in> set vs \<and>
                 count_list vs m = max_frequency vs \<and>
                 (\<forall>w\<in>set vs. count_list vs w = max_frequency vs \<longrightarrow>
                     first_index vs m \<le> first_index vs w) \<and>
                 map_sum id mode (compute_statistics vs el) = Inr (format_number m)"
    if "1 < max_frequency vs"
  proof -
    from sp that obtain m where m: "mode_of vs = Inr (True, Some m)" "m \<in> set vs"
      "count_list vs m = max_frequency vs"
      "\<forall>w\<in>set vs. count_list vs w = max_frequency vs \<longrightarrow> first_index vs m \<le> first_index vs w"
      by auto
    have "map_sum id mode (compute_statistics vs el) = Inr (format_number m)"
      using compute_statistics_result[OF m(1), of el] by simp
    with m show ?thesis by blast
  qed
  have c: "mode_of [5, 3, 5, 3 :: real] = Inr (True, Some 5)"
    by (simp add: mode_of_def mode_count_step_def dict_get_def dict_contains_def dict_getitem_def
        enumerate_eq_zip upt_rec)
  show ?thesis using a b c by blast
qed

theorem mode_earliest_most_frequent_witness:
  "[5, 3, 5, 3 :: real] \<noteq> [] \<and> max_frequency [5, 3, 5, 3 :: real] = 2 \<and>
   mode_of [5, 3, 5, 3 :: real] = Inr (True, Some 5) \<and>
   map_sum id mode (compute_statistics [5, 3, 5, 3] 0) = Inr ''5'' \<and>
   first_index [5, 3, 5, 3 :: real] 5 = 0 \<and> first_index [5, 3, 5, 3 :: real] 3 = 1 \<and>
   max_frequency [1, 2, 3 :: real] = 1 \<and>
   mode_of [1, 2, 3 :: real] = Inr (False, None) \<and>
   map_sum id mode (compute_statistics [1, 2, 3] 0) = Inr ''#N/A''"
proof -
  have m1: "max_frequency [5, 3, 5, 3 :: real] = 2" by (simp add: max_frequency_def)
  have m2: "max_frequency [1, 2, 3 :: real] = 1" by (simp add: max_frequency_def)
  have f5: "format_number 5 = ''5''"
    using format_number_of_int[of 5] by (simp add: str_int_def str_nat_eval)
  have n1: "[5, 3, 5, 3 :: real] \<noteq> []" and n2: "[1, 2, 3 :: real] \<noteq> []" by simp_all
  from mode_earliest_most_frequent[OF n1, of 0] m1
  have t1: "mode_of [5, 3, 5, 3 :: real] = Inr (True, Some 5)"
    and "\<exists>m. mode_of [5, 3, 5, 3 :: real] = Inr (True, Some m) \<and>
             map_sum id mode (compute_statistics [5, 3, 5, 3] 0) = Inr (format_number m)"
    by auto
  then have t2: "map_sum id mode (compute_statistics [5, 3, 5, 3] 0) = Inr ''5''"
    using f5 by auto
  from mode_earliest_most_frequent[OF n2, of 0] m2
  have t3: "mode_of [1, 2, 3 :: real] = Inr (False, None)"
    "map_sum id mode (compute_statistics [1, 2, 3] 0) = Inr ''#N/A''"
    by auto
  have fi: "first_index [5, 3, 5, 3 :: real] 5 = 0" "first_index [5, 3, 5, 3 :: real] 3 = 1"
    by (simp_all add: first_index_def)
  show ?thesis using m1 m2 t1 t2 t3 fi by simp
qed





subsection \<open>Number formatting\<close>

lemma str_int_no_point: "CHR ''.'' \<notin> set (str_int k)"
  using str_nat_digits[of "nat k"] str_nat_digits[of "nat (- k)"]
  by (auto simp: str_int_def list_all_iff dest: is_digit_not_point)

lemma fraction_digits_shape:
  assumes "list_all is_digit ip" and "sg = [] \<or> sg = ''-''"
  shows "fraction_digits (sg @ ip @ (if fz = [] then [] else CHR ''.'' # fz)) = fz"
proof -
  have a: "\<forall>c\<in>set ip. c \<noteq> CHR ''.''"
    using assms(1) is_digit_not_point by (auto simp: list_all_iff)
  have b: "\<forall>c\<in>set sg. c \<noteq> CHR ''.''"
    using assms(2) by auto
  have c: "dropWhile (\<lambda>c. c \<noteq> CHR ''.'') (xs @ ys) = dropWhile (\<lambda>c. c \<noteq> CHR ''.'') ys"
    if "\<forall>c\<in>set xs. c \<noteq> CHR ''.''" for xs ys :: string
    using that by (induction xs) simp_all
  have "dropWhile (\<lambda>c. c \<noteq> CHR ''.'') (sg @ ip @ (if fz = [] then [] else CHR ''.'' # fz))
          = dropWhile (\<lambda>c. c \<noteq> CHR ''.'') (if fz = [] then [] else CHR ''.'' # fz)"
    unfolding c[OF b] c[OF a] ..
  then show ?thesis unfolding fraction_digits_def by simp
qed

text \<open>
  C6. \<^verbatim>\<open>_format_number\<close> is the rendering with ten fraction digits with the trailing
  zeros removed and then one trailing point removed, \<^verbatim>\<open>0\<close> standing in for an empty
  result. The result is never empty, never ends in a point, has at most ten digits after
  the point and the last of them is not a zero; an integral value is printed as the integer,
  without a point. Formatting 3.0 gives \<^verbatim>\<open>3\<close>, and formatting 3.14 (the decimal, and the
  binary64 number nearest to it) gives \<^verbatim>\<open>3.14\<close>.
\<close>

theorem format_number_strips:
  "format_number x = format_spec x \<and>
   format_number x \<noteq> [] \<and> last (format_number x) \<noteq> CHR ''.'' \<and>
   length (fraction_digits (format_number x)) \<le> 10 \<and>
   (fraction_digits (format_number x) = [] \<or> last (fraction_digits (format_number x)) \<noteq> CHR ''0'') \<and>
   format_number (of_int k) = str_int k \<and> CHR ''.'' \<notin> set (format_number (of_int k)) \<and>
   format_number 3 = ''3'' \<and> format_number 3.14 = ''3.14'' \<and>
   format_number (7070651414971679 / 2 ^ 51) = ''3.14''"
proof -
  let ?sg = "if x < 0 then ''-'' else []"
  from format_number_shape[of x] obtain ip fz where
    n: "format_number x = ?sg @ ip @ (if fz = [] then [] else CHR ''.'' # fz)"
    and s: "format_spec x = format_number x"
    and ip: "ip = str_nat (nat (round_half_even (\<bar>x\<bar> * 10 ^ 10) div 10 ^ 10))"
    and fz: "list_all is_digit fz" "length fz \<le> 10" "fz = [] \<or> last fz \<noteq> CHR ''0''"
    by blast
  have ipd: "list_all is_digit ip" "ip \<noteq> []"
    unfolding ip by (rule str_nat_digits, rule str_nat_nonempty)
  have fd: "fraction_digits (format_number x) = fz"
    unfolding n by (rule fraction_digits_shape[OF ipd(1)]) simp
  have ne: "format_number x \<noteq> []" unfolding n using ipd(2) by simp
  have "last ip \<noteq> CHR ''.''"
    using ipd by (intro is_digit_not_point) (simp add: list_all_iff)
  moreover have "fz \<noteq> [] \<Longrightarrow> last fz \<noteq> CHR ''.''"
    using fz(1) by (intro is_digit_not_point) (simp add: list_all_iff)
  ultimately have lp: "last (format_number x) \<noteq> CHR ''.''"
    unfolding n using ipd(2) by simp
  have e1: "format_number 3 = ''3''" by (simp add: format_eval)
  have e2: "format_number 3.14 = ''3.14''" by (simp add: format_eval)
  have e3: "format_number (7070651414971679 / 2 ^ 51) = ''3.14''" by (simp add: format_eval)
  have g1: "length (fraction_digits (format_number x)) \<le> 10" unfolding fd by (rule fz(2))
  have g2: "fraction_digits (format_number x) = [] \<or> last (fraction_digits (format_number x)) \<noteq> CHR ''0''"
    unfolding fd by (rule fz(3))
  have g3: "CHR ''.'' \<notin> set (format_number (of_int k))"
    unfolding format_number_of_int by (rule str_int_no_point)
  show ?thesis
    using s[symmetric] ne lp g1 g2 format_number_of_int[of k] g3 e1 e2 e3
    by blast
qed

theorem format_number_strips_witness:
  "format_number (1 / 3) = ''0.3333333333'' \<and> format_spec (1 / 3) = ''0.3333333333'' \<and>
   fraction_digits ''0.3333333333'' = ''3333333333'' \<and>
   format_number (1 / 2048) = ''0.0004882812'' \<and>
   format_number (- 42) = ''-42'' \<and> format_number 0 = ''0''"
proof -
  have a: "format_number (1 / 3) = ''0.3333333333''" by (simp add: format_eval)
  have b: "format_number (1 / 2048) = ''0.0004882812''" by (simp add: format_eval)
  have c: "str_int (- 42) = ''-42''" "str_int 0 = ''0''" by (simp_all add: str_int_def str_nat_eval)
  have d: "fraction_digits ''0.3333333333'' = ''3333333333''" by (simp add: fraction_digits_def)
  show ?thesis
    using format_number_strips[of "1 / 3" "- 42"] format_number_strips[of "1 / 3" 0] a b c d
    by simp
qed

subsection \<open>Runs of the three scripts\<close>

lemma report_rows_wc_total:
  "(\<forall>w\<in>set order. map_of counts w \<noteq> None) \<Longrightarrow> \<exists>rows. report_rows_wc counts order = Inr rows"
proof (induction order)
  case Nil
  show ?case by simp
next
  case (Cons w order)
  then obtain c where c: "map_of counts w = Some c" by auto
  from Cons obtain rows where "report_rows_wc counts order = Inr rows" by auto
  then show ?case using c by (simp add: dict_getitem_def)
qed

lemma build_report_wc_total:
  "\<exists>report. build_report_wc (fst (count_words ws)) (snd (count_words ws)) el = Inr report"
proof -
  obtain counts order where r: "count_words ws = (counts, order)"
    by (cases "count_words ws")
  note inv = count_words_invariant[OF r[unfolded count_words_def]]
  have "\<forall>w\<in>set order. map_of counts w \<noteq> None"
    using inv by (simp add: set_first_seen)
  from report_rows_wc_total[OF this] obtain rows where "report_rows_wc counts order = Inr rows" ..
  then show ?thesis by (simp add: r build_report_wc_def)
qed

text \<open>
  C7. When the input file is read and no line yields a value, \<^verbatim>\<open>main\<close> of the statistics
  script prints the diagnostics and then an error message, writes no results file and
  returns 1. On a file with no accepted row, \<^verbatim>\<open>main\<close> of the conversion script and of the
  word-count script (where no accepted token means every line is blank) print and write the
  report of zero rows, which is the header line and the time line, and return 0.
\<close>

theorem zero_accepted_rows:
  assumes "fs path = Lines ls"
  shows "(List.map_filter (try_parse_number pf) ls = [] \<longrightarrow>
            main_stats pf [prog, path] fs el we =
              Inr \<lparr>console = diagnostics (rejected_stats pf) ls
                               @ print_line ''Error: no valid numeric data found in the file.'',
                    results_file = None, exit_code = 1\<rparr>) \<and>
         (List.map_filter parse_int ls = [] \<longrightarrow>
            main_conv [prog, path] fs el we =
              \<lparr>console = diagnostics rejected_conv ls @ build_report_conv [] el
                            @ write_warning RESULTS_FILE_conv we,
               results_file = written (build_report_conv [] el) we, exit_code = 0\<rparr>) \<and>
         (filter (\<lambda>raw. strip (strip_newlines raw) \<noteq> []) ls = [] \<longrightarrow>
            (\<exists>report. build_report_wc [] [] el = Inr report \<and>
               main_wc [prog, path] fs el we =
                 Inr \<lparr>console = diagnostics rejected_wc ls @ report @ write_warning RESULTS_FILE_wc we,
                       results_file = written report we, exit_code = 0\<rparr>)) \<and>
         build_report_conv [] el =
           ''ITEM'' @ [CHR 0x09] @ ''VALUE'' @ [CHR 0x09] @ ''BIN'' @ [CHR 0x09] @ ''HEX'' @ [CHR 0x0A]
             @ time_line el @ [CHR 0x0A] \<and>
         build_report_wc [] [] el =
           Inr (''WORD'' @ [CHR 0x09] @ ''COUNT'' @ [CHR 0x0A] @ time_line el @ [CHR 0x0A])"
  using main_stats_no_values[where fs = fs and path = path and ls = ls, OF assms, of pf prog el we]
    main_conv_no_rows[where fs = fs and path = path and ls = ls, OF assms, of prog el we]
    main_wc_no_words[where fs = fs and path = path and ls = ls, OF assms, of el prog we]
    build_report_conv_empty[of el] build_report_wc_empty[of el]
  by blast

lemma strip_eval: "strip (''abc'' @ [CHR 0x0A]) = ''abc''" "strip [CHR 0x0A] = []"
  "strip (''12'' @ [CHR 0x0A]) = ''12''" "strip (''-6'' @ [CHR 0x0A]) = ''-6''"
  by (simp_all add: strip_def lstrip_chars_def rstrip_chars_def isspace_def)

theorem zero_accepted_rows_witness:
  "main_stats (\<lambda>s. None) [''prog'', ''f''] (\<lambda>p. Lines [''abc'' @ [CHR 0x0A], [CHR 0x0A]]) (1 / 4) None =
     Inr \<lparr>console = ''Invalid data at line 1: '' @ [CHR 0x27] @ ''abc'' @ [CHR 0x27]
                      @ '' (ignored, continuing)'' @ [CHR 0x0A]
                      @ ''Error: no valid numeric data found in the file.'' @ [CHR 0x0A],
           results_file = None, exit_code = 1\<rparr> \<and>
   main_conv [''prog'', ''f''] (\<lambda>p. Lines [''abc'' @ [CHR 0x0A], [CHR 0x0A]]) (1 / 4) None =
     \<lparr>console = ''Invalid data at line 1: '' @ [CHR 0x27] @ ''abc'' @ [CHR 0x27] @ '' (ignored)''
                   @ [CHR 0x0A] @ ''ITEM'' @ [CHR 0x09] @ ''VALUE'' @ [CHR 0x09] @ ''BIN'' @ [CHR 0x09]
                   @ ''HEX'' @ [CHR 0x0A] @ ''TIME (seconds): 0.25'' @ [CHR 0x0A],
      results_file = Some (''ITEM'' @ [CHR 0x09] @ ''VALUE'' @ [CHR 0x09] @ ''BIN'' @ [CHR 0x09]
                   @ ''HEX'' @ [CHR 0x0A] @ ''TIME (seconds): 0.25'' @ [CHR 0x0A]),
      exit_code = 0\<rparr> \<and>
   main_wc [''prog'', ''f''] (\<lambda>p. Lines [[CHR 0x0A]]) (1 / 4) None =
     Inr \<lparr>console = ''Invalid data at line 1: empty line (ignored)'' @ [CHR 0x0A]
                      @ ''WORD'' @ [CHR 0x09] @ ''COUNT'' @ [CHR 0x0A] @ ''TIME (seconds): 0.25''
                      @ [CHR 0x0A],
           results_file = Some (''WORD'' @ [CHR 0x09] @ ''COUNT'' @ [CHR 0x0A]
                      @ ''TIME (seconds): 0.25'' @ [CHR 0x0A]),
           exit_code = 0\<rparr>"
proof -
  let ?ls = "[''abc'' @ [CHR 0x0A], [CHR 0x0A]]"
  have tl: "time_line (1 / 4) = ''TIME (seconds): 0.25''"
    by (simp add: time_line_def format_eval)
  have p: "parse_int (''abc'' @ [CHR 0x0A]) = None" "parse_int [CHR 0x0A] = None"
    unfolding parse_int_def strip_eval by (simp_all add: is_ascii_digit_def)
  have t: "try_parse_number (\<lambda>s. None) raw = None" for raw
    by (simp add: try_parse_number_def Let_def)
  have d1: "diagnostics (rejected_stats (\<lambda>s. None)) ?ls =
              ''Invalid data at line 1: '' @ [CHR 0x27] @ ''abc'' @ [CHR 0x27]
                @ '' (ignored, continuing)'' @ [CHR 0x0A]"
    unfolding diagnostics_def rejected_stats_def t
    by (simp add: enumerate_eq_zip strip_eval[simplified] invalid_data_stats_def print_line_def str_nat_eval)
  have d2: "diagnostics rejected_conv ?ls =
              ''Invalid data at line 1: '' @ [CHR 0x27] @ ''abc'' @ [CHR 0x27] @ '' (ignored)'' @ [CHR 0x0A]"
    unfolding diagnostics_def rejected_conv_def
    by (simp add: enumerate_eq_zip p[simplified] strip_eval[simplified] invalid_data_conv_def
        print_line_def str_nat_eval)
  have s3: "strip (strip_newlines [CHR 0x0A]) = []"
    by (simp add: strip_newlines_def strip_def lstrip_chars_def rstrip_chars_def)
  have d3: "diagnostics rejected_wc [[CHR 0x0A]] = ''Invalid data at line 1: empty line (ignored)'' @ [CHR 0x0A]"
    unfolding diagnostics_def rejected_wc_def
    by (simp add: enumerate_eq_zip s3 print_line_def str_nat_eval)
  have f1: "List.map_filter (try_parse_number (\<lambda>s. None)) ?ls = []"
    by (simp add: List.map_filter_simps t)
  have f2: "List.map_filter parse_int ?ls = []"
    by (simp add: List.map_filter_simps p[simplified])
  have f3: "filter (\<lambda>raw. strip (strip_newlines raw) \<noteq> []) [[CHR 0x0A]] = []"
    by (simp add: s3)
  have a: "(\<lambda>p. Lines ?ls) ''f'' = Lines ?ls" and b: "(\<lambda>p. Lines [[CHR 0x0A]]) ''f'' = Lines [[CHR 0x0A]]"
    by simp_all
  note z1 = zero_accepted_rows[where fs = "\<lambda>p. Lines ?ls" and path = "''f''" and ls = ?ls, OF a,
      of "\<lambda>s. None" "''prog''" "1 / 4" None]
  note z2 = zero_accepted_rows[where fs = "\<lambda>p. Lines [[CHR 0x0A]]" and path = "''f''"
      and ls = "[[CHR 0x0A]]", OF b, of "\<lambda>s. None" "''prog''" "1 / 4" None]
  have m1: "main_stats (\<lambda>s. None) [''prog'', ''f''] (\<lambda>p. Lines ?ls) (1 / 4) None =
     Inr \<lparr>console = diagnostics (rejected_stats (\<lambda>s. None)) ?ls
                      @ print_line ''Error: no valid numeric data found in the file.'',
           results_file = None, exit_code = 1\<rparr>"
    using z1 f1 by blast
  have m2: "main_conv [''prog'', ''f''] (\<lambda>p. Lines ?ls) (1 / 4) None =
              \<lparr>console = diagnostics rejected_conv ?ls @ build_report_conv [] (1 / 4)
                            @ write_warning RESULTS_FILE_conv None,
               results_file = written (build_report_conv [] (1 / 4)) None, exit_code = 0\<rparr>"
    and r2: "build_report_conv [] (1 / 4) =
           ''ITEM'' @ [CHR 0x09] @ ''VALUE'' @ [CHR 0x09] @ ''BIN'' @ [CHR 0x09] @ ''HEX'' @ [CHR 0x0A]
             @ time_line (1 / 4) @ [CHR 0x0A]"
    using z1 f2 by blast+
  have r3: "build_report_wc [] [] (1 / 4) =
           Inr (''WORD'' @ [CHR 0x09] @ ''COUNT'' @ [CHR 0x0A] @ time_line (1 / 4) @ [CHR 0x0A])"
    using z2 by blast
  have "\<exists>report. build_report_wc [] [] (1 / 4) = Inr report \<and>
               main_wc [''prog'', ''f''] (\<lambda>p. Lines [[CHR 0x0A]]) (1 / 4) None =
                 Inr \<lparr>console = diagnostics rejected_wc [[CHR 0x0A]] @ report @ write_warning RESULTS_FILE_wc None,
                       results_file = written report None, exit_code = 0\<rparr>"
    using z2 f3 by blast
  then have m3: "main_wc [''prog'', ''f''] (\<lambda>p. Lines [[CHR 0x0A]]) (1 / 4) None =
                 Inr \<lparr>console = diagnostics rejected_wc [[CHR 0x0A]]
                                  @ (''WORD'' @ [CHR 0x09] @ ''COUNT'' @ [CHR 0x0A] @ time_line (1 / 4) @ [CHR 0x0A])
                                  @ write_warning RESULTS_FILE_wc None,
                       results_file = written (''WORD'' @ [CHR 0x09] @ ''COUNT'' @ [CHR 0x0A] @ time_line (1 / 4) @ [CHR 0x0A]) None,
                       exit_code = 0\<rparr>"
    unfolding r3 by auto
  show ?thesis
    unfolding m1 m2 m3 r2 d1 d2 d3 tl
    by (simp add: print_line_def write_warning_def written_def)
qed

lemma main_wc_console:
  assumes "fs path = Lines ls"
  shows "\<exists>r rest. main_wc [prog, path] fs el we = Inr r \<and> exit_code r = 0 \<and>
           console r = diagnostics rejected_wc ls @ rest"
proof -
  obtain ws where l: "read_words_loop 0 ls ([], []) = (ws, diagnostics rejected_wc ls)"
    using read_words_eq[of ls] by simp
  obtain counts order where c: "count_words ws = (counts, order)"
    by (cases "count_words ws")
  from build_report_wc_total[of ws el] obtain report where
    "build_report_wc counts order el = Inr report" by (auto simp: c)
  then show ?thesis
    using assms by (cases we) (simp_all add: main_wc_def l c Let_def)
qed

lemma main_conv_console:
  assumes "fs path = Lines ls"
  shows "\<exists>rest. exit_code (main_conv [prog, path] fs el we) = 0 \<and>
           console (main_conv [prog, path] fs el we) = diagnostics rejected_conv ls @ rest"
  using assms by (cases we) (simp_all add: main_conv_def read_rows_eq Let_def)

lemma main_stats_console:
  assumes "fs path = Lines ls"
  shows "\<exists>r rest. main_stats pf [prog, path] fs el we = Inr r \<and>
              exit_code r = (if List.map_filter (try_parse_number pf) ls = [] then 1 else 0) \<and>
              console r = diagnostics (rejected_stats pf) ls @ rest"
proof (cases "List.map_filter (try_parse_number pf) ls = []")
  case True
  then show ?thesis
    using main_stats_no_values[where fs = fs and path = path and ls = ls and pf = pf, OF assms True]
    by simp
next
  case False
  let ?vs = "List.map_filter (try_parse_number pf) ls"
  obtain hm mv where m: "mode_of ?vs = Inr (hm, mv)" "hm \<longrightarrow> mv \<noteq> None"
    using mode_of_total[of ?vs] by blast
  from compute_statistics_result[OF m(1), of el] m(2)
  obtain res where "compute_statistics ?vs el = Inr res" by auto
  then show ?thesis
    using assms False by (cases we) (simp_all add: main_stats_def read_values_eq Let_def)
qed

lemma strip_newlines_blank: "strip raw = [] \<Longrightarrow> strip (strip_newlines raw) = []"
proof -
  assume "strip raw = []"
  then have a: "\<forall>c\<in>set raw. isspace c" by (simp add: strip_Nil_iff)
  have "set (strip_newlines raw) \<subseteq> set raw"
    unfolding strip_newlines_def lstrip_chars_def
    using rstrip_chars_subset[of "\<lambda>c. c = CHR 0x0A" "dropWhile (\<lambda>c. c = CHR 0x0A) raw"]
      set_dropWhileD[of _ "\<lambda>c. c = CHR 0x0A" raw]
    by auto
  then show ?thesis using a by (auto simp: strip_Nil_iff)
qed


text \<open>
  C8. On a file that can be read, each script collects the values of the accepted lines
  only, in order, and prints one diagnostic, with the line number, for every rejected line;
  the run goes on to the end of the file and to the report (the statistics script returns 1
  only when no line at all was accepted). A line of whitespace only gets no diagnostic from
  the statistics and the conversion scripts, and the diagnostic \<^verbatim>\<open>empty line\<close> from the
  word-count script.
\<close>

theorem rejected_lines_reported:
  assumes "fs path = Lines ls"
  shows "read_values pf path (fs path) =
           (Some (List.map_filter (try_parse_number pf) ls), diagnostics (rejected_stats pf) ls) \<and>
         read_rows path (fs path) =
           (Some (map conversion_row (List.map_filter parse_int ls)), None, diagnostics rejected_conv ls) \<and>
         read_words_loop 0 ls ([], []) =
           (concat (map (\<lambda>raw. tokenize (strip_newlines raw))
                      (filter (\<lambda>raw. strip (strip_newlines raw) \<noteq> []) ls)),
            diagnostics rejected_wc ls) \<and>
         (\<exists>r rest. main_stats pf [prog, path] fs el we = Inr r \<and>
              exit_code r = (if List.map_filter (try_parse_number pf) ls = [] then 1 else 0) \<and>
              console r = diagnostics (rejected_stats pf) ls @ rest) \<and>
         (\<exists>rest. exit_code (main_conv [prog, path] fs el we) = 0 \<and>
              console (main_conv [prog, path] fs el we) = diagnostics rejected_conv ls @ rest) \<and>
         (\<exists>r rest. main_wc [prog, path] fs el we = Inr r \<and> exit_code r = 0 \<and>
              console r = diagnostics rejected_wc ls @ rest) \<and>
         (strip raw \<noteq> [] \<and> try_parse_number pf raw = None \<longrightarrow>
            rejected_stats pf i raw = Some (invalid_data_stats i (strip raw))) \<and>
         (strip raw \<noteq> [] \<and> parse_int raw = None \<longrightarrow>
            rejected_conv i raw = Some (invalid_data_conv i (strip raw))) \<and>
         (strip raw = [] \<longrightarrow>
            rejected_stats pf i raw = None \<and> rejected_conv i raw = None \<and>
            rejected_wc i raw = Some (''Invalid data at line '' @ str_nat i @ '': empty line (ignored)''))"
proof -
  have a: "read_values pf path (fs path) =
           (Some (List.map_filter (try_parse_number pf) ls), diagnostics (rejected_stats pf) ls)"
    unfolding assms by (rule read_values_eq)
  have b: "read_rows path (fs path) =
           (Some (map conversion_row (List.map_filter parse_int ls)), None, diagnostics rejected_conv ls)"
    unfolding assms by (rule read_rows_eq)
  have c: "strip raw = [] \<longrightarrow>
            rejected_stats pf i raw = None \<and> rejected_conv i raw = None \<and>
            rejected_wc i raw = Some (''Invalid data at line '' @ str_nat i @ '': empty line (ignored)'')"
    using strip_newlines_blank[of raw] by (simp add: rejected_stats_def rejected_conv_def rejected_wc_def)
  have d: "strip raw \<noteq> [] \<and> try_parse_number pf raw = None \<longrightarrow>
            rejected_stats pf i raw = Some (invalid_data_stats i (strip raw))"
    "strip raw \<noteq> [] \<and> parse_int raw = None \<longrightarrow>
            rejected_conv i raw = Some (invalid_data_conv i (strip raw))"
    by (simp_all add: rejected_stats_def rejected_conv_def)
  show ?thesis
    using a b c d read_words_eq[of ls]
      main_stats_console[where fs = fs and path = path and ls = ls, OF assms, of pf prog el we]
      main_conv_console[where fs = fs and path = path and ls = ls, OF assms, of prog el we]
      main_wc_console[where fs = fs and path = path and ls = ls, OF assms, of prog el we]
    by blast
qed

theorem rejected_lines_reported_witness:
  "read_rows ''f'' (Lines [''12'' @ [CHR 0x0A], ''abc'' @ [CHR 0x0A], [CHR 0x0A], ''-6'' @ [CHR 0x0A]]) =
     (Some [(12, ''1100'', ''C''), (- 6, ''1111111010'', ''FFFFFFF3FA'')], None,
      ''Invalid data at line 2: '' @ [CHR 0x27] @ ''abc'' @ [CHR 0x27] @ '' (ignored)'' @ [CHR 0x0A]) \<and>
   read_words_loop 0 [''12'' @ [CHR 0x0A], ''abc'' @ [CHR 0x0A], [CHR 0x0A], ''-6'' @ [CHR 0x0A]] ([], []) =
     ([''12'', ''abc'', ''-6''], ''Invalid data at line 3: empty line (ignored)'' @ [CHR 0x0A]) \<and>
   exit_code (main_conv [''prog'', ''f'']
     (\<lambda>p. Lines [''12'' @ [CHR 0x0A], ''abc'' @ [CHR 0x0A], [CHR 0x0A], ''-6'' @ [CHR 0x0A]]) 0 None) = 0"
proof -
  let ?ls = "[''12'' @ [CHR 0x0A], ''abc'' @ [CHR 0x0A], [CHR 0x0A], ''-6'' @ [CHR 0x0A]]"
  have a: "(\<lambda>p. Lines ?ls) ''f'' = Lines ?ls" by simp
  note w = rejected_lines_reported[where fs = "\<lambda>p. Lines ?ls" and path = "''f''" and ls = ?ls, OF a,
      of "\<lambda>s. None" "''prog''" 0 None "[]" 0]
  have p: "parse_int (''12'' @ [CHR 0x0A]) = Some 12" "parse_int (''abc'' @ [CHR 0x0A]) = None"
    "parse_int [CHR 0x0A] = None" "parse_int (''-6'' @ [CHR 0x0A]) = Some (- 6)"
    unfolding parse_int_def strip_eval by (simp_all add: is_ascii_digit_def parse_digits_def)
  have c: "conversion_row 12 = (12, ''1100'', ''C'')"
    "conversion_row (- 6) = (- 6, ''1111111010'', ''FFFFFFF3FA'')"
    unfolding conversion_row_def by code_simp+
  have f: "List.map_filter parse_int ?ls = [12, - 6]"
    by (simp add: List.map_filter_simps p[simplified])
  have sn: "str_nat (Suc (Suc 0)) = ''2''" "str_nat (Suc (Suc (Suc 0))) = ''3''"
    "str_nat (Suc (Suc (Suc (Suc 0)))) = ''4''"
    by (simp_all add: str_nat.simps[of "Suc (Suc 0)"] str_nat.simps[of "Suc (Suc (Suc 0))"]
        str_nat.simps[of "Suc (Suc (Suc (Suc 0)))"] digit_char_def)
  have d: "diagnostics rejected_conv ?ls =
             ''Invalid data at line 2: '' @ [CHR 0x27] @ ''abc'' @ [CHR 0x27] @ '' (ignored)'' @ [CHR 0x0A]"
    unfolding diagnostics_def rejected_conv_def
    by (simp add: enumerate_eq_zip upt_rec p[simplified] strip_eval[simplified] invalid_data_conv_def
        print_line_def str_nat_eval sn)
  have s: "strip_newlines (''12'' @ [CHR 0x0A]) = ''12''" "strip_newlines (''abc'' @ [CHR 0x0A]) = ''abc''"
    "strip_newlines [CHR 0x0A] = []" "strip_newlines (''-6'' @ [CHR 0x0A]) = ''-6''"
    by (simp_all add: strip_newlines_def lstrip_chars_def rstrip_chars_def)
  have s': "strip ''12'' = ''12''" "strip ''abc'' = ''abc''" "strip [] = []" "strip ''-6'' = ''-6''"
    by (simp_all add: strip_def lstrip_chars_def rstrip_chars_def isspace_def)
  have t: "tokenize ''12'' = [''12'']" "tokenize ''abc'' = [''abc'']" "tokenize ''-6'' = [''-6'']"
    by code_simp+
  have fw: "concat (map (\<lambda>raw. tokenize (strip_newlines raw))
                      (filter (\<lambda>raw. strip (strip_newlines raw) \<noteq> []) ?ls)) = [''12'', ''abc'', ''-6'']"
    by (simp add: s[simplified] s'[simplified] t[simplified])
  have dw: "diagnostics rejected_wc ?ls = ''Invalid data at line 3: empty line (ignored)'' @ [CHR 0x0A]"
    unfolding diagnostics_def rejected_wc_def
    by (simp add: enumerate_eq_zip upt_rec s[simplified] s'[simplified] print_line_def str_nat_eval sn)
  have r1: "read_rows ''f'' (Lines ?ls) =
     (Some [(12, ''1100'', ''C''), (- 6, ''1111111010'', ''FFFFFFF3FA'')], None,
      ''Invalid data at line 2: '' @ [CHR 0x27] @ ''abc'' @ [CHR 0x27] @ '' (ignored)'' @ [CHR 0x0A])"
    using w unfolding f d by (simp add: c)
  have r2: "read_words_loop 0 ?ls ([], []) =
     ([''12'', ''abc'', ''-6''], ''Invalid data at line 3: empty line (ignored)'' @ [CHR 0x0A])"
    using w unfolding fw dw by blast
  have r3: "exit_code (main_conv [''prog'', ''f''] (\<lambda>p. Lines ?ls) 0 None) = 0"
    using w by blast
  show ?thesis using r1 r2 r3 by blast
qed

subsection \<open>Word counts\<close>

text \<open>
  C9. \<^verbatim>\<open>_count_words\<close> returns the distinct words exactly once each, in the order of their
  first occurrences, the count of every word is the number of its occurrences, and the
  counts add up to the number of tokens. The tokens of \<^verbatim>\<open>b a b c a a\<close> give the order
  b, a, c with the counts 2, 3, 1.
\<close>

theorem count_words_first_appearance:
  "\<exists>counts order. count_words ws = (counts, order) \<and>
     distinct order \<and> set order = set ws \<and>
     sorted_wrt (\<lambda>u v. first_index ws u < first_index ws v) order \<and>
     map fst counts = order \<and>
     (\<forall>w. dict_getitem counts w = (if w \<in> set ws then Inr (count_list ws w) else Inl KeyError)) \<and>
     sum_list (map snd counts) = length ws \<and>
     tokenize ''b a b c a a'' = [''b'', ''a'', ''b'', ''c'', ''a'', ''a''] \<and>
     count_words [''b'', ''a'', ''b'', ''c'', ''a'', ''a''] =
       ([(''b'', 2), (''a'', 3), (''c'', 1)], [''b'', ''a'', ''c''])"
proof -
  obtain counts order where r: "count_words ws = (counts, order)"
    by (cases "count_words ws")
  note inv = count_words_invariant[OF r[unfolded count_words_def]]
  have ex: "tokenize ''b a b c a a'' = [''b'', ''a'', ''b'', ''c'', ''a'', ''a'']"
    "count_words [''b'', ''a'', ''b'', ''c'', ''a'', ''a''] =
       ([(''b'', 2), (''a'', 3), (''c'', 1)], [''b'', ''a'', ''c''])"
    by code_simp+
  have "distinct order" "set order = set ws"
    "sorted_wrt (\<lambda>u v. first_index ws u < first_index ws v) order"
    using inv by (simp_all add: distinct_first_seen set_first_seen first_seen_sorted)
  moreover have "\<forall>w. dict_getitem counts w = (if w \<in> set ws then Inr (count_list ws w) else Inl KeyError)"
    using inv by (simp add: dict_getitem_def)
  ultimately show ?thesis using r inv ex by simp
qed

text \<open>
  C10. A line that is not empty once stripped of whitespace has at least one token, so the
  body of the reading loop of the word-count script never takes its \<^verbatim>\<open>no words\<close> branch:
  it appends the tokens of the line and prints nothing.
\<close>

theorem nonblank_line_has_token:
  assumes "strip line \<noteq> []"
  shows "tokenize line \<noteq> [] \<and>
         (\<forall>raw_line line_num all_words out. strip_newlines raw_line = line \<longrightarrow>
            read_words_line line_num raw_line (all_words, out) = (all_words @ tokenize line, out))"
  using assms by (auto simp: tokenize_Nil_iff strip_Nil_iff read_words_line_cases)

theorem nonblank_line_has_token_witness:
  "strip '' ab  c '' \<noteq> [] \<and> tokenize '' ab  c '' = [''ab'', ''c''] \<and>
   strip_newlines ('' ab  c '' @ [CHR 0x0A]) = '' ab  c '' \<and>
   read_words_line 7 ('' ab  c '' @ [CHR 0x0A]) ([''x''], []) = ([''x'', ''ab'', ''c''], [])"
proof -
  have s: "strip '' ab  c '' \<noteq> []" by code_simp
  have t: "tokenize '' ab  c '' = [''ab'', ''c'']" by code_simp
  have n: "strip_newlines ('' ab  c '' @ [CHR 0x0A]) = '' ab  c ''" by code_simp
  from nonblank_line_has_token[OF s] n
  have "read_words_line 7 ('' ab  c '' @ [CHR 0x0A]) ([''x''], []) = ([''x''] @ tokenize '' ab  c '', [])"
    by blast
  then show ?thesis using s t n by simp
qed

end
